theory Spec2Isabelle
  imports Main "HOL-Library.Word" "HOL-Library.Sublist"
begin

unbundle bit_operations_syntax

section \<open>Machine types and the persistent key-value store\<close>

text \<open>
  The firmware (\<^verbatim>\<open>src/firmware/src/main.c\<close>) keeps its state in file-level statics and
  persists part of it in the vendor's non-volatile storage (NVS), addressed by a namespace
  and a key. \<^verbatim>\<open>uint8_t\<close> and \<^verbatim>\<open>uint32_t\<close> are words. The day values (\<^verbatim>\<open>int\<close>,
  \<^verbatim>\<open>int32_t\<close>, \<^verbatim>\<open>tm_yday\<close>) are integers read as 32-bit two's complement: a
  day-of-year lies between 0 and 365 and -1 stands for unknown, but the store can hand
  back any 32-bit value, so the arithmetic on them is written with its wrap-around.
\<close>

type_synonym u8 = "8 word"
type_synonym u32 = "32 word"

text \<open>The value a 32-bit \<^verbatim>\<open>int\<close> holds after an operation whose exact result is \<open>x\<close>.\<close>

definition int32_wrap :: "int \<Rightarrow> int" where
  "int32_wrap x = (x + 2147483648) mod 4294967296 - 2147483648"

datatype nvs_val = U8 u8 | I32 int | Str string

type_synonym nvs_entries = "string \<Rightarrow> nvs_val option"

record nvs_flash =
  nvs_ready :: bool
  nvs_spaces :: "string \<Rightarrow> nvs_entries option"

datatype nvs_mode = NVS_READONLY | NVS_READWRITE

text \<open>
  The store is the vendor's library; the model keeps what its interface promises of the
  calls the firmware makes. \<^verbatim>\<open>nvs_open\<close> fails when the store cannot be opened at all
  (\<open>nvs_ready\<close> is off); a read-only open also fails when the namespace does not exist
  yet, a read-write open creates it. The handle is the namespace's entries, and
  \<^verbatim>\<open>nvs_commit\<close> puts them back.
\<close>

definition nvs_open :: "nvs_flash \<Rightarrow> string \<Rightarrow> nvs_mode \<Rightarrow> nvs_entries option" where
  "nvs_open fl name mode =
     (if \<not> nvs_ready fl then None
      else case nvs_spaces fl name of
             Some es \<Rightarrow> Some es
           | None \<Rightarrow> (case mode of NVS_READONLY \<Rightarrow> None | NVS_READWRITE \<Rightarrow> Some Map.empty))"

text \<open>The typed getters leave the caller's variable as it was when the key is missing
  or holds a value of another type.\<close>

definition nvs_get_u8 :: "nvs_entries \<Rightarrow> string \<Rightarrow> u8 \<Rightarrow> u8" where
  "nvs_get_u8 es key dflt = (case es key of Some (U8 v) \<Rightarrow> v | _ \<Rightarrow> dflt)"

definition nvs_get_i32 :: "nvs_entries \<Rightarrow> string \<Rightarrow> int \<Rightarrow> int" where
  "nvs_get_i32 es key dflt = (case es key of Some (I32 v) \<Rightarrow> v | _ \<Rightarrow> dflt)"

definition nvs_set_u8 :: "nvs_entries \<Rightarrow> string \<Rightarrow> u8 \<Rightarrow> nvs_entries" where
  "nvs_set_u8 es key v = es(key \<mapsto> U8 v)"

definition nvs_set_i32 :: "nvs_entries \<Rightarrow> string \<Rightarrow> int \<Rightarrow> nvs_entries" where
  "nvs_set_i32 es key v = es(key \<mapsto> I32 v)"

definition nvs_set_str :: "nvs_entries \<Rightarrow> string \<Rightarrow> string \<Rightarrow> nvs_entries" where
  "nvs_set_str es key v = es(key \<mapsto> Str v)"

definition nvs_commit :: "nvs_flash \<Rightarrow> string \<Rightarrow> nvs_entries \<Rightarrow> nvs_flash" where
  "nvs_commit fl name es = fl\<lparr>nvs_spaces := (nvs_spaces fl)(name := Some es)\<rparr>"

text \<open>What a reader of the store sees under a namespace and key.\<close>

definition nvs_lookup :: "nvs_flash \<Rightarrow> string \<Rightarrow> string \<Rightarrow> nvs_val option" where
  "nvs_lookup fl name key = (case nvs_spaces fl name of None \<Rightarrow> None | Some es \<Rightarrow> es key)"

section \<open>StreakStore: the device state\<close>

text \<open>
  The statics of \<^verbatim>\<open>main.c\<close> that the streak logic reads and writes, the levels of the
  seven LED pins, the calls made to \<^verbatim>\<open>send_webhook\<close> (in order), and the store.
\<close>

record device =
  streak_data :: u8
  last_day :: int
  today_state :: bool
  button_pressed :: bool
  last_debounce_time :: u32
  last_button_state :: bool
  ntp_synced :: bool
  led_levels :: "bool list"
  webhook_calls :: "bool list"
  flash :: nvs_flash

definition DEBOUNCE_DELAY :: u32 where
  "DEBOUNCE_DELAY = 50"

text \<open>The statics' initialisers: the state at power-on, over whatever the store holds.\<close>

definition initial_device :: "nvs_flash \<Rightarrow> device" where
  "initial_device fl =
     \<lparr>streak_data = 0, last_day = -1, today_state = False, button_pressed = False,
      last_debounce_time = 0, last_button_state = True, ntp_synced = False,
      led_levels = replicate 7 False, webhook_calls = [], flash = fl\<rparr>"

definition update_leds :: "device \<Rightarrow> device" where
  "update_leds s = s\<lparr>led_levels := map (\<lambda>i. drop_bit i (streak_data s) AND 1 \<noteq> 0) [0..<7]\<rparr>"

definition save_streak :: "device \<Rightarrow> device" where
  "save_streak s =
     (case nvs_open (flash s) ''streak'' NVS_READWRITE of
        None \<Rightarrow> s
      | Some nvs \<Rightarrow>
          (let nvs1 = nvs_set_u8 nvs ''data'' (streak_data s);
               nvs2 = (if last_day s \<noteq> -1 then nvs_set_i32 nvs1 ''lastDay'' (last_day s) else nvs1)
           in s\<lparr>flash := nvs_commit (flash s) ''streak'' nvs2\<rparr>))"

definition load_streak :: "device \<Rightarrow> device" where
  "load_streak s =
     (let s1 = (case nvs_open (flash s) ''streak'' NVS_READONLY of
                  None \<Rightarrow> s
                | Some nvs \<Rightarrow>
                    s\<lparr>streak_data := nvs_get_u8 nvs ''data'' 0,
                      last_day := nvs_get_i32 nvs ''lastDay'' (-1)\<rparr>)
      in s1\<lparr>today_state := (drop_bit 6 (streak_data s1) AND 1 \<noteq> 0)\<rparr>)"

definition shift_streak :: "device \<Rightarrow> device" where
  "shift_streak s =
     update_leds
       (s\<lparr>streak_data := drop_bit 1 (streak_data s) AND NOT (push_bit 6 1),
          today_state := False\<rparr>)"

definition send_webhook :: "bool \<Rightarrow> device \<Rightarrow> device" where
  "send_webhook state s = s\<lparr>webhook_calls := webhook_calls s @ [state]\<rparr>"

text \<open>
  \<^verbatim>\<open>handle_button\<close>: \<open>reading\<close> is the pin level read at entry; \<open>t1\<close> and \<open>t2\<close> are what
  the two calls of \<^verbatim>\<open>millis()\<close> return.
\<close>

definition handle_button :: "bool \<Rightarrow> u32 \<Rightarrow> u32 \<Rightarrow> device \<Rightarrow> device" where
  "handle_button reading t1 t2 s =
     (let s1 = (if reading \<noteq> last_button_state s then s\<lparr>last_debounce_time := t1\<rparr> else s);
          s2 = (if t2 - last_debounce_time s1 > DEBOUNCE_DELAY then
                  (if \<not> reading \<and> \<not> button_pressed s1 then
                     (let a = s1\<lparr>button_pressed := True, today_state := \<not> today_state s1\<rparr>;
                          b = (if today_state a
                               then a\<lparr>streak_data := streak_data a OR push_bit 6 1\<rparr>
                               else a\<lparr>streak_data := streak_data a AND NOT (push_bit 6 1)\<rparr>)
                      in send_webhook (today_state b) (save_streak (update_leds b)))
                   else if reading then s1\<lparr>button_pressed := False\<rparr>
                   else s1)
                else s1)
      in s2\<lparr>last_button_state := reading\<rparr>)"

text \<open>
  The first-sync wait of \<^verbatim>\<open>sync_ntp\<close>: up to 30 one-second delays, left as soon as the
  SNTP callback has set \<^verbatim>\<open>ntp_synced\<close>. \<open>fires_at = Some k\<close> says that the callback runs
  during delay number \<open>k\<close> (counted from 0), \<open>None\<close> that it does not run.
\<close>

function sntp_wait :: "nat option \<Rightarrow> nat \<Rightarrow> bool \<Rightarrow> bool" where
  "sntp_wait fires_at attempts synced =
     (if \<not> synced \<and> attempts < 30
      then sntp_wait fires_at (attempts + 1) (fires_at = Some attempts)
      else synced)"
  by pat_completeness auto
termination
  by (relation "measure (\<lambda>(f, attempts, s). 30 - attempts)") auto

declare sntp_wait.simps [simp del]

text \<open>The loop \<^verbatim>\<open>for (int i = 0; i < days_passed && i < 7; i++) shift_streak();\<close>\<close>

function shift_loop :: "int \<Rightarrow> int \<Rightarrow> device \<Rightarrow> device" where
  "shift_loop i days_passed s =
     (if i < days_passed \<and> i < 7 then shift_loop (i + 1) days_passed (shift_streak s) else s)"
  by pat_completeness auto
termination
  by (relation "measure (\<lambda>(i, d, s). nat (7 - i))") auto

declare shift_loop.simps [simp del]

text \<open>
  \<^verbatim>\<open>sync_ntp\<close>: \<open>yday\<close> is \<^verbatim>\<open>timeinfo.tm_yday\<close> of the synchronised local time (the
  timezone offset fetched before only enters through it). \<^verbatim>\<open>days_passed\<close> is a 32-bit
  \<^verbatim>\<open>int\<close>: the subtraction and the addition of 365 wrap.
\<close>

definition sync_ntp :: "nat option \<Rightarrow> int \<Rightarrow> device \<Rightarrow> device" where
  "sync_ntp fires_at yday s =
     (let s1 = s\<lparr>ntp_synced := sntp_wait fires_at 0 (ntp_synced s)\<rparr>
      in if ntp_synced s1 then
           (let s2 = s1\<lparr>last_day := yday\<rparr>
            in case nvs_open (flash s2) ''streak'' NVS_READONLY of
                 None \<Rightarrow> s2
               | Some nvs \<Rightarrow>
                   (let saved_day = nvs_get_i32 nvs ''lastDay'' (-1)
                    in if saved_day \<noteq> -1 \<and> saved_day \<noteq> last_day s2 then
                         (let d = int32_wrap (last_day s2 - saved_day);
                              days_passed = (if d < 0 then int32_wrap (d + 365) else d)
                          in save_streak (shift_loop 0 days_passed s2))
                       else s2))
         else s1)"

text \<open>\<^verbatim>\<open>check_midnight_rollover\<close>: \<open>current_day\<close> is what \<^verbatim>\<open>get_current_day()\<close> returns.\<close>

definition check_midnight_rollover :: "int \<Rightarrow> device \<Rightarrow> device" where
  "check_midnight_rollover current_day s =
     (if \<not> ntp_synced s then s
      else if current_day = -1 then s
      else if last_day s \<noteq> -1 \<and> current_day \<noteq> last_day s then
             (save_streak (shift_streak s))\<lparr>last_day := current_day\<rparr>
           else s)"

definition clear_streak_data :: "device \<Rightarrow> device" where
  "clear_streak_data s =
     (let s1 = (case nvs_open (flash s) ''streak'' NVS_READWRITE of
                  None \<Rightarrow> s
                | Some nvs \<Rightarrow> s\<lparr>flash := nvs_commit (flash s) ''streak'' Map.empty\<rparr>)
      in update_leds (s1\<lparr>streak_data := 0, today_state := False, last_day := -1\<rparr>))"

subsection \<open>Sequences of operations\<close>

text \<open>
  Every operation of the firmware that writes the streak state, with the inputs it takes
  from the environment. A run applies a sequence of them; \<open>trace\<close> lists the state after
  each one.
\<close>

datatype step =
    Button bool u32 u32
  | Shift
  | Load
  | Save
  | Rollover int
  | Sync "nat option" int
  | Clear

fun apply_step :: "step \<Rightarrow> device \<Rightarrow> device" where
  "apply_step (Button reading t1 t2) s = handle_button reading t1 t2 s"
| "apply_step Shift s = shift_streak s"
| "apply_step Load s = load_streak s"
| "apply_step Save s = save_streak s"
| "apply_step (Rollover current_day) s = check_midnight_rollover current_day s"
| "apply_step (Sync fires_at yday) s = sync_ntp fires_at yday s"
| "apply_step Clear s = clear_streak_data s"

fun trace :: "device \<Rightarrow> step list \<Rightarrow> device list" where
  "trace s [] = []"
| "trace s (x # xs) = apply_step x s # trace (apply_step x s) xs"

text \<open>Bit 6 of the mapping (today) agrees with the flag.\<close>

definition today_consistent :: "device \<Rightarrow> bool" where
  "today_consistent s = (bit (streak_data s) 6 = today_state s)"

text \<open>The spec's day count: the difference of the days-of-year, plus 365 when negative.\<close>

definition days_elapsed :: "int \<Rightarrow> int \<Rightarrow> int" where
  "days_elapsed current_day last_recorded =
     (if current_day - last_recorded < 0 then current_day - last_recorded + 365
      else current_day - last_recorded)"


text \<open>
  Days-of-year, and the states and inputs that keep to them: the last recorded day is
  unknown or a day-of-year, a stored \<open>lastDay\<close> is a day-of-year, and the clock hands a
  day-of-year to the time sync and a day-of-year or -1 to the rollover check.
\<close>

definition day_of_year :: "int \<Rightarrow> bool" where
  "day_of_year d = (0 \<le> d \<and> d \<le> 365)"

definition days_in_range :: "device \<Rightarrow> bool" where
  "days_in_range s =
     ((last_day s = -1 \<or> day_of_year (last_day s))
      \<and> (\<forall>v. nvs_lookup (flash s) ''streak'' ''lastDay'' = Some (I32 v) \<longrightarrow> day_of_year v))"

fun step_days_ok :: "step \<Rightarrow> bool" where
  "step_days_ok (Rollover current_day) = (current_day = -1 \<or> day_of_year current_day)"
| "step_days_ok (Sync fires_at yday) = day_of_year yday"
| "step_days_ok x = True"

subsection \<open>Example stores\<close>

text \<open>A store written on day 100 with no press recorded today, and one written on the
  last-but-one day of a year with today's bit set.\<close>

definition stored_flash :: nvs_flash where
  "stored_flash =
     \<lparr>nvs_ready = True,
      nvs_spaces = (\<lambda>n. None)(''streak'' := Some [''data'' \<mapsto> U8 5, ''lastDay'' \<mapsto> I32 100])\<rparr>"

text \<open>A store whose \<open>lastDay\<close> is the smallest 32-bit value.\<close>

definition far_past_flash :: nvs_flash where
  "far_past_flash =
     \<lparr>nvs_ready = True,
      nvs_spaces = (\<lambda>n. None)(''streak'' := Some [''data'' \<mapsto> U8 127,
                                                 ''lastDay'' \<mapsto> I32 (- 2147483648)])\<rparr>"

definition year_end_flash :: nvs_flash where
  "year_end_flash =
     \<lparr>nvs_ready = True,
      nvs_spaces = (\<lambda>n. None)(''streak'' := Some [''data'' \<mapsto> U8 64, ''lastDay'' \<mapsto> I32 364])\<rparr>"

definition empty_flash :: nvs_flash where
  "empty_flash = \<lparr>nvs_ready = True, nvs_spaces = (\<lambda>n. None)\<rparr>"

text \<open>A first boot on an empty store, synced on day \<open>d\<close>, then one debounced press.\<close>

definition pressed_on_day :: "int \<Rightarrow> device" where
  "pressed_on_day d =
     handle_button False 0 100 (sync_ntp (Some 0) d (load_streak (initial_device empty_flash)))"

section \<open>ClaimCode\<close>

text \<open>
  C strings: a buffer is a list of characters, and its string is what precedes the first
  NUL.
\<close>

definition NUL :: char where
  "NUL = CHR 0x00"

definition c_str :: "string \<Rightarrow> string" where
  "c_str buf = takeWhile (\<lambda>c. c \<noteq> NUL) buf"

text \<open>\<^verbatim>\<open>%02X\<close> of a byte.\<close>

definition hex_upper :: "nat \<Rightarrow> char" where
  "hex_upper n = ''0123456789ABCDEF'' ! n"

definition fmt_02X :: "u8 \<Rightarrow> string" where
  "fmt_02X b = [hex_upper (unat b div 16), hex_upper (unat b mod 16)]"

definition claim_chars :: string where
  "claim_chars = ''ABCDEFGHJKLMNPQRSTUVWXYZ23456789''"

text \<open>
  \<^verbatim>\<open>generate_claim_code\<close>: \<open>mac\<close> is what \<^verbatim>\<open>esp_read_mac\<close> delivers (six bytes),
  \<open>code\<close> the caller's buffer of \<open>len\<close> characters as it was before the call. The hash
  is a \<^verbatim>\<open>uint32_t\<close>: multiplication and addition wrap. \<^verbatim>\<open>len\<close> is a \<^verbatim>\<open>size_t\<close>, so
  \<^verbatim>\<open>len - 1\<close> in the index of the terminator wraps to the largest value when \<open>len\<close> is 0;
  the only call passes 12.
\<close>

definition mac_hash :: "u8 list \<Rightarrow> u32" where
  "mac_hash mac =
     (let mac_str = concat (map fmt_02X mac);
          h1 = foldl (\<lambda>hash i. hash * 31 + of_char (mac_str ! i)) 0 [0..<12]
      in foldl (\<lambda>hash i. hash XOR push_bit (i * 4) (ucast (mac ! i))) h1 [0..<6])"

function claim_loop :: "nat \<Rightarrow> nat \<Rightarrow> u32 \<Rightarrow> string \<Rightarrow> string" where
  "claim_loop i len hash code =
     (if i < 10 \<and> int i < int len - 1
      then claim_loop (i + 1) len (hash div 32) (code[i := claim_chars ! unat (hash mod 32)])
      else code)"
  by pat_completeness auto
termination
  by (relation "measure (\<lambda>(i, len, hash, code). 10 - i)") auto

declare claim_loop.simps [simp del]

definition generate_claim_code :: "u8 list \<Rightarrow> nat \<Rightarrow> string \<Rightarrow> string" where
  "generate_claim_code mac len code =
     (claim_loop 0 len (mac_hash mac) code)
       [(if len = 0 \<or> 10 < len - 1 then 10 else len - 1) := NUL]"

text \<open>The base-32 digits of a hash, lowest first, as characters of the alphabet: what the
  claim code is compared with.\<close>

primrec claim_digits :: "nat \<Rightarrow> u32 \<Rightarrow> string" where
  "claim_digits 0 h = []"
| "claim_digits (Suc n) h = claim_chars ! unat (h mod 32) # claim_digits n (h div 32)"

section \<open>DNSRedirector\<close>

text \<open>
  One iteration of the loop of \<^verbatim>\<open>dns_server_task\<close>. \<open>buffer0\<close> is the 512-byte array as
  the previous iterations left it, \<open>datagram\<close> what \<^verbatim>\<open>recvfrom\<close> delivers (\<open>None\<close>: the call
  fails and returns -1; a datagram longer than the array is cut to its size). The result
  is the array afterwards and the bytes handed to \<^verbatim>\<open>sendto\<close>, if any. A store
  \<^verbatim>\<open>buffer[pos++] = ...\<close> at an index outside the array is undefined behaviour in C: the
  model stops there with a fault that names the index.
\<close>

datatype dns_fault = Write_past_end nat

function skip_question :: "u8 list \<Rightarrow> nat \<Rightarrow> nat \<Rightarrow> nat" where
  "skip_question buffer len pos =
     (if pos < len \<and> buffer ! pos \<noteq> 0
      then skip_question buffer len (pos + unat (buffer ! pos) + 1)
      else pos)"
  by pat_completeness auto
termination
  by (relation "measure (\<lambda>(buffer, len, pos). len - pos)") auto

declare skip_question.simps [simp del]

fun store_bytes :: "u8 list \<Rightarrow> nat \<Rightarrow> u8 list \<Rightarrow> dns_fault + (u8 list \<times> nat)" where
  "store_bytes buffer pos [] = Inr (buffer, pos)"
| "store_bytes buffer pos (b # bs) =
     (if pos < length buffer then store_bytes (buffer[pos := b]) (pos + 1) bs
      else Inl (Write_past_end pos))"

definition ap_ip :: "u8 list" where
  "ap_ip = [192, 168, 4, 1]"

text \<open>The answer record, in the order of the stores: name pointer to offset 12, type A,
  class IN, TTL 60, data length 4, the address.\<close>

definition dns_answer :: "u8 list" where
  "dns_answer =
     [0xc0, 0x0c, 0x00, 0x01, 0x00, 0x01, 0x00, 0x00, 0x00, 0x3c, 0x00, 0x04] @ ap_ip"

definition recvfrom :: "u8 list \<Rightarrow> u8 list option \<Rightarrow> u8 list \<times> int" where
  "recvfrom buffer datagram =
     (case datagram of
        None \<Rightarrow> (buffer, -1)
      | Some d \<Rightarrow> (let n = min (length d) (length buffer)
                  in (take n d @ drop n buffer, int n)))"

definition dns_iteration ::
  "u8 list \<Rightarrow> u8 list option \<Rightarrow> dns_fault + (u8 list \<times> u8 list option)" where
  "dns_iteration buffer0 datagram =
     (let (buffer, len) = recvfrom buffer0 datagram
      in if len < 12 then Inr (buffer, None)
         else (let b = buffer[2 := 0x81, 3 := 0x80, 6 := 0x00, 7 := 0x01];
                   pos = skip_question b (nat len) 12 + 5
               in case store_bytes b pos dns_answer of
                    Inl fault \<Rightarrow> Inl fault
                  | Inr (b', pos') \<Rightarrow> Inr (b', Some (take pos' b'))))"

text \<open>Example datagrams: an A query for \<^verbatim>\<open>a.bc\<close>, and 269 bytes whose label lengths
  (255 at offsets 12 and 268) lead the name walk to offset 524.\<close>

definition example_query :: "u8 list" where
  "example_query = [0x12, 0x34, 0x01, 0x00, 0x00, 0x01, 0x00, 0x00, 0x00, 0x00, 0x00, 0x00,
                    0x01, 0x61, 0x02, 0x62, 0x63, 0x00, 0x00, 0x01, 0x00, 0x01]"

definition overlong_name_query :: "u8 list" where
  "overlong_name_query = replicate 12 0 @ [0xFF] @ replicate 255 0x41 @ [0xFF]"

section \<open>CaptivePortalServer\<close>

text \<open>
  What a handler hands back: its return value and the response it sent. A handler that
  runs into \<^verbatim>\<open>ESP_ERROR_CHECK\<close> on an error, into an assertion of the RTOS, or past the
  end of a buffer does not return: the model ends in a fault.
\<close>

datatype esp_err_t = ESP_OK | ESP_FAIL

datatype http_response = Http_error nat string | Http_body string string

datatype handler_fault = Buffer_overrun | Aborted

datatype wifi_auth_mode = WIFI_AUTH_OPEN | WIFI_AUTH_WPA2_PSK

record wifi_sta_config =
  sta_ssid :: string
  sta_password :: string
  sta_threshold_authmode :: wifi_auth_mode

datatype wifi_call = Wifi_disconnect | Wifi_set_config wifi_sta_config | Wifi_connect

datatype wifi_event = STA_START | STA_DISCONNECTED | STA_GOT_IP | Other_event

text \<open>
  The statics of the provisioning flow: the retry counter, the event group (\<open>None\<close> while
  the handle is \<^verbatim>\<open>NULL\<close>, else its bits), the completion flag and the claim code buffer;
  with them the calls made to the WiFi driver, in order, and the store.
\<close>

record portal =
  s_retry_num :: int
  s_wifi_event_group :: "u32 option"
  s_provisioning_done :: bool
  s_claim_code :: string
  wifi_calls :: "wifi_call list"
  portal_flash :: nvs_flash

definition WIFI_MAXIMUM_RETRY :: int where
  "WIFI_MAXIMUM_RETRY = 5"

definition WIFI_CONNECTED_BIT :: u32 where
  "WIFI_CONNECTED_BIT = push_bit 0 1"

definition WIFI_FAIL_BIT :: u32 where
  "WIFI_FAIL_BIT = push_bit 1 1"

definition esp_wifi_call :: "wifi_call \<Rightarrow> portal \<Rightarrow> portal" where
  "esp_wifi_call c p = p\<lparr>wifi_calls := wifi_calls p @ [c]\<rparr>"

definition xEventGroupSetBits :: "u32 \<Rightarrow> portal \<Rightarrow> portal" where
  "xEventGroupSetBits bits p =
     p\<lparr>s_wifi_event_group := map_option (\<lambda>g. g OR bits) (s_wifi_event_group p)\<rparr>"

definition xEventGroupClearBits :: "u32 \<Rightarrow> portal \<Rightarrow> portal" where
  "xEventGroupClearBits bits p =
     p\<lparr>s_wifi_event_group := map_option (\<lambda>g. g AND NOT bits) (s_wifi_event_group p)\<rparr>"

text \<open>\<^verbatim>\<open>wifi_event_handler\<close>, by the event it is called for.\<close>

fun wifi_event_handler :: "wifi_event \<Rightarrow> portal \<Rightarrow> portal" where
  "wifi_event_handler STA_START p = esp_wifi_call Wifi_connect p"
| "wifi_event_handler STA_DISCONNECTED p =
     (if s_retry_num p < WIFI_MAXIMUM_RETRY
      then (esp_wifi_call Wifi_connect p)\<lparr>s_retry_num := s_retry_num p + 1\<rparr>
      else xEventGroupSetBits WIFI_FAIL_BIT p)"
| "wifi_event_handler STA_GOT_IP p = xEventGroupSetBits WIFI_CONNECTED_BIT (p\<lparr>s_retry_num := 0\<rparr>)"
| "wifi_event_handler Other_event p = p"

text \<open>Driver events that arrive while the handler sits in a plain delay are all handled;
  those that arrive while it waits for the signal bits are handled until a bit is set, and
  the end of the list is the timeout.\<close>

definition deliver_events :: "wifi_event list \<Rightarrow> portal \<Rightarrow> portal" where
  "deliver_events evs p = foldl (\<lambda>q e. wifi_event_handler e q) p evs"

definition group_bits :: "portal \<Rightarrow> u32" where
  "group_bits p = (case s_wifi_event_group p of None \<Rightarrow> 0 | Some g \<Rightarrow> g)"

fun xEventGroupWaitBits :: "u32 \<Rightarrow> wifi_event list \<Rightarrow> portal \<Rightarrow> portal" where
  "xEventGroupWaitBits bits [] p = p"
| "xEventGroupWaitBits bits (e # es) p =
     (if group_bits p AND bits \<noteq> 0 then p
      else xEventGroupWaitBits bits es (wifi_event_handler e p))"

text \<open>
  What \<^verbatim>\<open>httpd_req_recv(req, content, sizeof(content) - 1)\<close> does: it fails with a
  negative value, or stores the bytes it read (at most 255, none for an empty body) and
  returns their number. The handler then terminates \<open>content\<close> at that length, so the
  string it parses ends at the first NUL among the bytes or at their end.
\<close>

datatype recv_result = Recv_error int | Recv_data string

fun recv_ret :: "recv_result \<Rightarrow> int" where
  "recv_ret (Recv_error e) = e"
| "recv_ret (Recv_data d) = int (length d)"

fun recv_content :: "recv_result \<Rightarrow> string" where
  "recv_content (Recv_error e) = []"
| "recv_content (Recv_data d) = c_str d"

text \<open>\<^verbatim>\<open>strstr\<close> and \<^verbatim>\<open>strchr\<close>: the offset of the first occurrence, \<open>None\<close> for the
  null pointer.\<close>

fun strstr :: "string \<Rightarrow> string \<Rightarrow> nat option" where
  "strstr [] needle = (if needle = [] then Some 0 else None)"
| "strstr (c # cs) needle =
     (if take (length needle) (c # cs) = needle then Some 0
      else map_option Suc (strstr cs needle))"

fun strchr :: "string \<Rightarrow> char \<Rightarrow> nat option" where
  "strchr [] ch = None"
| "strchr (c # cs) ch = (if c = ch then Some 0 else map_option Suc (strchr cs ch))"

text \<open>The two key searches of \<^verbatim>\<open>http_connect_handler\<close>. The target buffers (33 and 65
  characters) start zeroed and stay so when the key or the closing quote is missing or
  the value is too long.\<close>

definition parse_ssid :: "string \<Rightarrow> string" where
  \<open>parse_ssid content =
     (case strstr content ''"ssid":"'' of
        None \<Rightarrow> []
      | Some i \<Rightarrow>
          (let ssid_start = drop (i + 8) content
           in case strchr ssid_start (CHR 0x22) of
                None \<Rightarrow> []
              | Some len \<Rightarrow> if len < 33 then take len ssid_start else []))\<close>

definition parse_password :: "string \<Rightarrow> string" where
  \<open>parse_password content =
     (case strstr content ''"password":"'' of
        None \<Rightarrow> []
      | Some i \<Rightarrow>
          (let pass_start = drop (i + 12) content
           in case strchr pass_start (CHR 0x22) of
                None \<Rightarrow> []
              | Some len \<Rightarrow> if len < 65 then take len pass_start else []))\<close>

definition save_wifi_credentials :: "string \<Rightarrow> string \<Rightarrow> portal \<Rightarrow> portal" where
  "save_wifi_credentials ssid_v password_v p =
     (case nvs_open (portal_flash p) ''wifi'' NVS_READWRITE of
        None \<Rightarrow> p
      | Some nvs \<Rightarrow>
          p\<lparr>portal_flash :=
              nvs_commit (portal_flash p) ''wifi''
                (nvs_set_str (nvs_set_str nvs ''ssid'' ssid_v) ''password'' password_v)\<rparr>)"

text \<open>The station configuration: \<^verbatim>\<open>strncpy\<close> copies at most 31 characters of the
  SSID and 63 of the password into the zeroed driver structure.\<close>

definition connect_config :: "string \<Rightarrow> string \<Rightarrow> wifi_sta_config" where
  "connect_config ssid_v password_v =
     (if length password_v > 0
      then \<lparr>sta_ssid = take 31 ssid_v, sta_password = take 63 password_v,
            sta_threshold_authmode = WIFI_AUTH_WPA2_PSK\<rparr>
      else \<lparr>sta_ssid = take 31 ssid_v, sta_password = [],
            sta_threshold_authmode = WIFI_AUTH_OPEN\<rparr>)"

text \<open>
  From clearing the earlier connection state to the return of
  \<^verbatim>\<open>xEventGroupWaitBits\<close>. \<open>evs_delay\<close> are the driver events handled during the 100 ms
  pause after the disconnect, \<open>evs_wait\<close> those of the 15 seconds of the wait.
\<close>

definition connect_attempt ::
  "wifi_sta_config \<Rightarrow> wifi_event list \<Rightarrow> wifi_event list \<Rightarrow> portal \<Rightarrow> portal" where
  "connect_attempt cfg evs_delay evs_wait p =
     (let p1 = xEventGroupClearBits (WIFI_CONNECTED_BIT OR WIFI_FAIL_BIT) (p\<lparr>s_retry_num := 0\<rparr>);
          p2 = deliver_events evs_delay (esp_wifi_call Wifi_disconnect p1);
          p3 = esp_wifi_call Wifi_connect (esp_wifi_call (Wifi_set_config cfg) p2)
      in xEventGroupWaitBits (WIFI_CONNECTED_BIT OR WIFI_FAIL_BIT) evs_wait p3)"

text \<open>
  \<^verbatim>\<open>http_connect_handler\<close>. \<open>set_config_ok\<close> says whether \<^verbatim>\<open>esp_wifi_set_config\<close>
  succeeds: \<^verbatim>\<open>ESP_ERROR_CHECK\<close> aborts otherwise, as does the wait on a \<^verbatim>\<open>NULL\<close> event
  group. The value the wait returns is the group's bits at that moment.
\<close>

definition http_connect_handler ::
  "recv_result \<Rightarrow> bool \<Rightarrow> wifi_event list \<Rightarrow> wifi_event list \<Rightarrow> portal
     \<Rightarrow> handler_fault + ((esp_err_t \<times> http_response) \<times> portal)" where
  \<open>http_connect_handler received set_config_ok evs_delay evs_wait p =
     (if recv_ret received \<le> 0 then Inr ((ESP_FAIL, Http_error 400 ''Invalid request''), p)
      else (let content = recv_content received;
                ssid_v = parse_ssid content;
                password_v = parse_password content
            in if length ssid_v = 0
               then Inr ((ESP_OK, Http_body ''application/json''
                            ''{"success":false,"error":"No SSID provided"}''), p)
               else if \<not> set_config_ok \<or> s_wifi_event_group p = None then Inl Aborted
               else (let p5 = connect_attempt (connect_config ssid_v password_v)
                                 evs_delay evs_wait p
                     in if group_bits p5 AND WIFI_CONNECTED_BIT \<noteq> 0
                        then Inr ((ESP_OK, Http_body ''application/json''
                                     (take 255 (''{"success":true,"claim_code":"''
                                                  @ c_str (s_claim_code p5) @ ''"}''))),
                                  (save_wifi_credentials ssid_v password_v p5)
                                    \<lparr>s_provisioning_done := True\<rparr>)
                        else Inr ((ESP_OK, Http_body ''application/json''
                                     ''{"success":false,"error":"Failed to connect to network"}''),
                                  p5))))\<close>

text \<open>A portal state in which an earlier attempt has failed (five retries, fail bit
  set), and a request for the network \<^verbatim>\<open>Home\<close>.\<close>

definition provisioning_portal :: portal where
  "provisioning_portal =
     \<lparr>s_retry_num = 5, s_wifi_event_group = Some 2, s_provisioning_done = False,
      s_claim_code = ''4PDZ66BAAA'' @ [NUL, NUL], wifi_calls = [], portal_flash = empty_flash\<rparr>"

definition home_request :: recv_result where
  \<open>home_request = Recv_data ''{"ssid":"Home","password":"secret123"}''\<close>

text \<open>Whether the connected bit is set in the event group.\<close>

definition connected :: "portal \<Rightarrow> bool" where
  "connected p = (group_bits p AND WIFI_CONNECTED_BIT \<noteq> 0)"

subsection \<open>The scan handler\<close>

record wifi_ap_record =
  ssid :: string
  rssi :: int
  authmode :: int

text \<open>\<^verbatim>\<open>%d\<close> of an integer.\<close>

definition digit_char :: "nat \<Rightarrow> char" where
  "digit_char n = ''0123456789'' ! n"

function show_nat :: "nat \<Rightarrow> string" where
  "show_nat n = (if n < 10 then [digit_char n] else show_nat (n div 10) @ [digit_char (n mod 10)])"
  by pat_completeness auto
termination
  by (relation "measure (\<lambda>n. n)") auto

declare show_nat.simps [simp del]

definition show_int :: "int \<Rightarrow> string" where
  "show_int i = (if i < 0 then CHR ''-'' # show_nat (nat (- i)) else show_nat (nat i))"

text \<open>The bucket the loop body computes into its local \<^verbatim>\<open>rssi_level\<close>.\<close>

definition rssi_level :: "int \<Rightarrow> int" where
  "rssi_level r = (if r \<ge> -50 then 4 else if r \<ge> -60 then 3 else if r \<ge> -70 then 2 else 1)"

text \<open>What the \<^verbatim>\<open>snprintf\<close> of the loop body appends for one record: its arguments are
  the separator, the SSID, \<^verbatim>\<open>ap_records[i].rssi\<close> and \<^verbatim>\<open>ap_records[i].authmode\<close>.\<close>

definition scan_entry :: "nat \<Rightarrow> wifi_ap_record \<Rightarrow> string" where
  \<open>scan_entry offset r =
     (let level = rssi_level (rssi r)
      in (if offset > 15 then '','' else '''') @ ''{"ssid":"'' @ c_str (ssid r) @ ''","rssi":''
         @ show_int (rssi r) @ '',"auth":'' @ show_int (authmode r) @ ''}'')\<close>

fun scan_loop :: "wifi_ap_record list \<Rightarrow> string \<times> nat \<Rightarrow> string \<times> nat" where
  "scan_loop [] (response, offset) = (response, offset)"
| "scan_loop (r # rs) (response, offset) =
     (if length (c_str (ssid r)) = 0 then scan_loop rs (response, offset)
      else scan_loop rs (response @ scan_entry offset r, offset + length (scan_entry offset r)))"

text \<open>
  \<^verbatim>\<open>http_scan_handler\<close>: \<open>found\<close> is the driver's list of access points, the two flags say
  whether the two \<^verbatim>\<open>malloc\<close> calls succeed. The response is built in a 2048-byte block;
  text that does not fit there (with the closing \<^verbatim>\<open>]}\<close> and the terminator) is written
  past its end, which the model reports as a fault.
\<close>

definition http_scan_handler ::
  "wifi_ap_record list \<Rightarrow> bool \<Rightarrow> bool \<Rightarrow> handler_fault + (esp_err_t \<times> http_response)" where
  \<open>http_scan_handler found records_alloc response_alloc =
     (let ap_count = (if length found > 20 then 20 else length found)
      in if \<not> records_alloc then Inr (ESP_FAIL, Http_error 500 ''Memory error'')
         else (let ap_records = take ap_count found
               in if \<not> response_alloc then Inr (ESP_FAIL, Http_error 500 ''Memory error'')
                  else (let (response, offset) =
                              scan_loop ap_records (''{"networks":['', length ''{"networks":['')
                        in if offset + 2 < 2048
                           then Inr (ESP_OK, Http_body ''application/json'' (response @ '']}''))
                           else Inl Buffer_overrun)))\<close>

section \<open>WebhookDispatcher: the signature\<close>

text \<open>
  \<^verbatim>\<open>bytes_to_hex\<close> and \<^verbatim>\<open>calculate_hmac_signature\<close>. The keyed hash itself is computed by
  the chip's HMAC peripheral from a key in eFuse (\<^verbatim>\<open>esp_hmac_calculate\<close>); it enters as the
  parameter \<open>esp_hmac_calculate\<close>, \<open>None\<close> for an error return.
\<close>

definition hex_chars :: string where
  "hex_chars = ''0123456789abcdef''"

primrec bytes_to_hex :: "u8 list \<Rightarrow> string" where
  "bytes_to_hex [] = []"
| "bytes_to_hex (b # bs) =
     hex_chars ! unat (drop_bit 4 b AND 0x0F) # hex_chars ! unat (b AND 0x0F) # bytes_to_hex bs"

definition calculate_hmac_signature ::
  "bool \<Rightarrow> (string \<Rightarrow> u8 list option) \<Rightarrow> string \<Rightarrow> string option" where
  "calculate_hmac_signature s_hmac_available esp_hmac_calculate message =
     (if \<not> s_hmac_available then None
      else case esp_hmac_calculate message of
             None \<Rightarrow> None
           | Some hmac \<Rightarrow> Some (bytes_to_hex hmac))"


section \<open>Verified properties of the streak store\<close>

subsection \<open>Bit-level facts\<close>

lemma today_bit_test: "(drop_bit 6 (x::u8) AND 1 \<noteq> 0) = bit x 6"
  by (simp add: bit_iff_odd_drop_bit and_one_eq odd_iff_mod_2_eq_one)

lemma bit_64_int: "bit (64::int) i = (i = 6)"
proof -
  have "(64::int) = 2 ^ 6" by simp
  then have "bit (64::int) i = bit (2 ^ 6 :: int) i" by (rule arg_cong)
  also have "\<dots> = (i = 6)" by (simp only: bit_exp_iff) auto
  finally show ?thesis .
qed

lemma bit_64_u8: "bit (64::u8) i = (i = 6)"
proof -
  have "(64::u8) = 2 ^ 6" by simp
  then have "bit (64::u8) i = bit (2 ^ 6 :: u8) i" by (rule arg_cong)
  also have "\<dots> = (i = 6)" by (simp only: bit_exp_iff) auto
  finally show ?thesis .
qed

lemma set_today_bit: "bit ((x::u8) OR 64) 6"
proof -
  have "bit ((x::u8) OR push_bit 6 1) 6" by (simp add: bit_simps bit_64_u8 bit_64_int)
  then show ?thesis by simp
qed

lemma clear_today_bit: "\<not> bit ((x::u8) AND - 65) 6"
proof -
  have "\<not> bit ((x::u8) AND NOT (push_bit 6 1)) 6" by (simp add: bit_simps bit_64_u8 bit_64_int)
  then show ?thesis by simp
qed

subsection \<open>What each operation leaves alone\<close>

lemma save_streak_fields:
  "streak_data (save_streak s) = streak_data s" "today_state (save_streak s) = today_state s"
  "last_day (save_streak s) = last_day s" "ntp_synced (save_streak s) = ntp_synced s"
  by (simp_all add: save_streak_def Let_def split: option.splits)

lemma update_leds_fields:
  "streak_data (update_leds s) = streak_data s" "today_state (update_leds s) = today_state s"
  "last_day (update_leds s) = last_day s" "ntp_synced (update_leds s) = ntp_synced s"
  "flash (update_leds s) = flash s"
  by (simp_all add: update_leds_def)

lemma shift_streak_data:
  "streak_data (shift_streak s) = drop_bit 1 (streak_data s) AND NOT (push_bit 6 1)"
  by (simp add: shift_streak_def update_leds_def)

lemma shift_streak_fields:
  "last_day (shift_streak s) = last_day s" "ntp_synced (shift_streak s) = ntp_synced s"
  "flash (shift_streak s) = flash s"
  by (simp_all add: shift_streak_def update_leds_def)

lemma shift_funpow_fields:
  "last_day ((shift_streak ^^ n) s) = last_day s \<and> flash ((shift_streak ^^ n) s) = flash s"
  by (induction n) (simp_all add: shift_streak_fields)

lemma funpow_3: "(f ^^ 3) x = f (f (f x))"
  by (simp add: numeral_3_eq_3)

lemma shift_bits: "bit (streak_data (shift_streak s)) i = (i < 6 \<and> bit (streak_data s) (Suc i))"
proof (cases "i < 6")
  case True
  then show ?thesis by (simp add: shift_streak_data bit_simps bit_64_u8 bit_64_int)
next
  case False
  then have "i = 6 \<or> 7 \<le> i" by arith
  then show ?thesis using False
    by (auto simp: shift_streak_data bit_simps bit_64_u8 bit_64_int dest: bit_imp_le_length)
qed

lemma save_streak_persists:
  "nvs_ready (flash s) \<Longrightarrow>
     nvs_lookup (flash (save_streak s)) ''streak'' ''data'' = Some (U8 (streak_data s))
     \<and> (last_day s \<noteq> -1 \<longrightarrow>
          nvs_lookup (flash (save_streak s)) ''streak'' ''lastDay'' = Some (I32 (last_day s)))"
  by (auto simp: save_streak_def nvs_open_def nvs_lookup_def nvs_commit_def nvs_set_u8_def
      nvs_set_i32_def Let_def split: option.splits nvs_mode.splits)

subsection \<open>Today's bit and the flag\<close>

lemma today_consistent_save: "today_consistent (save_streak s) = today_consistent s"
  by (simp add: today_consistent_def save_streak_fields)

lemma today_consistent_shift: "today_consistent (shift_streak s)"
  by (simp add: today_consistent_def shift_streak_def update_leds_fields clear_today_bit)

lemma today_consistent_load: "today_consistent (load_streak s)"
  by (simp add: today_consistent_def load_streak_def Let_def today_bit_test)

lemma today_consistent_clear: "today_consistent (clear_streak_data s)"
  by (simp add: today_consistent_def clear_streak_data_def Let_def update_leds_fields)

lemma today_consistent_button:
  "today_consistent s \<Longrightarrow> today_consistent (handle_button reading t1 t2 s)"
  by (simp add: today_consistent_def handle_button_def Let_def send_webhook_def
      save_streak_fields update_leds_fields set_today_bit clear_today_bit)

lemma today_consistent_shift_loop:
  "today_consistent s \<Longrightarrow> today_consistent (shift_loop i d s)"
proof (induction i d s rule: shift_loop.induct)
  case (1 i d s)
  show ?case
  proof (cases "i < d \<and> i < 7")
    case True
    have "today_consistent (shift_loop (i + 1) d (shift_streak s))"
      using True by (intro "1.IH") (simp_all add: today_consistent_shift)
    then show ?thesis using True by (subst shift_loop.simps) simp
  next
    case False
    then show ?thesis using "1.prems" by (subst shift_loop.simps) auto
  qed
qed

lemma today_consistent_rollover:
  "today_consistent s \<Longrightarrow> today_consistent (check_midnight_rollover d s)"
  using today_consistent_shift [of s]
  by (simp add: check_midnight_rollover_def today_consistent_def save_streak_fields)

lemma today_consistent_sync:
  assumes "today_consistent s"
  shows "today_consistent (sync_ntp f y s)"
proof -
  have a: "today_consistent (s\<lparr>ntp_synced := b, last_day := y\<rparr>)" for b
    using assms by (simp add: today_consistent_def)
  have b: "today_consistent (s\<lparr>ntp_synced := b\<rparr>)" for b
    using assms by (simp add: today_consistent_def)
  show ?thesis
    by (simp add: sync_ntp_def Let_def a b today_consistent_save today_consistent_shift_loop
        split: option.splits)
qed

lemma today_consistent_step:
  "today_consistent s \<Longrightarrow> today_consistent (apply_step x s)"
  by (cases x)
    (simp_all add: today_consistent_button today_consistent_shift today_consistent_load
      today_consistent_save today_consistent_rollover today_consistent_sync
      today_consistent_clear)

lemma today_consistent_trace:
  "today_consistent s \<Longrightarrow> list_all today_consistent (trace s xs)"
  by (induction xs arbitrary: s) (simp_all add: today_consistent_step)

text \<open>
  Claim C1. Start from the power-on state (all statics at their initialisers, over any
  store contents) and apply any sequence of operations: button handling with any pin
  readings and clock values, shifts, loads, and also saves, rollover checks, time syncs
  and factory clears. After every single operation of the sequence, bit 6 of the streak
  mapping equals the today flag.
\<close>

theorem today_bit_matches_flag:
  "list_all today_consistent (trace (initial_device fl) ops)"
  by (rule today_consistent_trace) (simp add: today_consistent_def initial_device_def)

subsection \<open>The day shift\<close>

text \<open>
  Claim C2. For every device state (so for every 8-bit value of the mapping), one
  \<^verbatim>\<open>shift_streak\<close> moves each bit one index down: bit \<open>i\<close> of the result is bit \<open>i + 1\<close>
  of the old mapping for \<open>i < 6\<close>, the old bit 0 is gone, and bit 6 (and everything above it)
  is clear, as is the today flag. Seven shifts from any state give the all-zero mapping.
\<close>

theorem shift_streak_drops_oldest_day:
  "(bit (streak_data (shift_streak s)) i = (i < 6 \<and> bit (streak_data s) (Suc i)))
   \<and> \<not> bit (streak_data (shift_streak s)) 6
   \<and> \<not> today_state (shift_streak s)
   \<and> streak_data ((shift_streak ^^ 7) s) = 0"
proof -
  have "streak_data ((shift_streak ^^ 7) s) = 0"
    by (rule bit_eqI) (simp add: numeral_eq_Suc shift_bits)
  moreover have "\<not> today_state (shift_streak s)"
    by (simp add: shift_streak_def update_leds_def)
  ultimately show ?thesis by (simp add: shift_bits)
qed

subsection \<open>Reconciliation after the first time sync\<close>

lemma shift_loop_funpow: "shift_loop i d s = (shift_streak ^^ nat (min d 7 - i)) s"
proof (induction i d s rule: shift_loop.induct)
  case (1 i d s)
  show ?case
  proof (cases "i < d \<and> i < 7")
    case True
    then have n: "nat (min d 7 - i) = Suc (nat (min d 7 - (i + 1)))" by (auto simp: min_def)
    have "shift_loop i d s = shift_loop (i + 1) d (shift_streak s)"
      using True by (subst shift_loop.simps) simp
    also have "\<dots> = (shift_streak ^^ nat (min d 7 - (i + 1))) (shift_streak s)"
      using True by (intro "1.IH") simp_all
    also have "\<dots> = (shift_streak ^^ nat (min d 7 - i)) s"
      by (simp only: n funpow_Suc_right o_apply)
    finally show ?thesis .
  next
    case False
    then have "nat (min d 7 - i) = 0" by (auto simp: min_def)
    then show ?thesis using False by (subst shift_loop.simps) auto
  qed
qed

lemma booted_year_end:
  "load_streak (initial_device year_end_flash) =
     (initial_device year_end_flash)\<lparr>streak_data := 64, last_day := 364, today_state := True\<rparr>"
  by (simp add: load_streak_def initial_device_def year_end_flash_def nvs_open_def
      nvs_get_u8_def nvs_get_i32_def Let_def)

lemma int32_wrap_in_range:
  "- 2147483648 \<le> x \<Longrightarrow> x < 2147483648 \<Longrightarrow> int32_wrap x = x"
  by (simp add: int32_wrap_def)

text \<open>
  Claim C3. Let the first time sync succeed (the SNTP callback fires within the 30
  one-second polls), let the store be readable and hold a \<open>lastDay\<close> that is a
  day-of-year (0 to 365, so not -1) and differs from the synced day-of-year \<open>yday\<close>
  (0 to 365). Then \<^verbatim>\<open>sync_ntp\<close> ends in the state obtained by applying
  \<^verbatim>\<open>shift_streak\<close> exactly \<open>min (days_elapsed yday lastDay) 7\<close> times to the synced state
  and saving it: the store then holds the shifted mapping and \<open>yday\<close> as \<open>lastDay\<close>.
  \<open>days_elapsed\<close> is the difference of the days plus 365 when negative, and is never
  negative.
\<close>

theorem sync_ntp_reconciles_missed_days:
  assumes synced: "sntp_wait fires_at 0 (ntp_synced s)"
    and ready: "nvs_ready (flash s)"
    and saved: "nvs_lookup (flash s) ''streak'' ''lastDay'' = Some (I32 saved_day)"
    and known: "saved_day \<noteq> -1"
    and differs: "saved_day \<noteq> yday"
    and saved_range: "0 \<le> saved_day" "saved_day \<le> 365"
    and yday_range: "0 \<le> yday" "yday \<le> 365"
  shows "sync_ntp fires_at yday s =
           save_streak ((shift_streak ^^ nat (min (days_elapsed yday saved_day) 7))
                          (s\<lparr>ntp_synced := True, last_day := yday\<rparr>))
         \<and> nvs_lookup (flash (sync_ntp fires_at yday s)) ''streak'' ''data''
             = Some (U8 (streak_data ((shift_streak ^^ nat (min (days_elapsed yday saved_day) 7)) s)))
         \<and> nvs_lookup (flash (sync_ntp fires_at yday s)) ''streak'' ''lastDay'' = Some (I32 yday)
         \<and> 0 \<le> days_elapsed yday saved_day"
proof -
  let ?n = "nat (min (days_elapsed yday saved_day) 7)"
  let ?s2 = "s\<lparr>ntp_synced := True, last_day := yday\<rparr>"
  obtain nvs where nvs: "nvs_spaces (flash s) ''streak'' = Some nvs"
    and key: "nvs ''lastDay'' = Some (I32 saved_day)"
    using saved by (auto simp: nvs_lookup_def split: option.splits)
  have opened: "nvs_open (flash s) ''streak'' NVS_READONLY = Some nvs"
    using ready nvs by (simp add: nvs_open_def)
  have got: "nvs_get_i32 nvs ''lastDay'' (-1) = saved_day"
    using key by (simp add: nvs_get_i32_def)
  have sub: "int32_wrap (yday - saved_day) = yday - saved_day"
    using saved_range yday_range by (intro int32_wrap_in_range) simp_all
  have add: "int32_wrap (yday - saved_day + 365) = yday - saved_day + 365"
    using saved_range yday_range by (intro int32_wrap_in_range) simp_all
  have eq: "sync_ntp fires_at yday s = save_streak ((shift_streak ^^ ?n) ?s2)"
    using synced known differs
    by (simp add: sync_ntp_def Let_def opened got sub add shift_loop_funpow days_elapsed_def)
  have fl: "flash ((shift_streak ^^ ?n) ?s2) = flash s"
    and ld: "last_day ((shift_streak ^^ ?n) ?s2) = yday"
    by (simp_all add: shift_funpow_fields)
  have sd: "streak_data ((shift_streak ^^ n) (s\<lparr>ntp_synced := True, last_day := yday\<rparr>))
            = streak_data ((shift_streak ^^ n) s)" for n
    by (induction n) (simp_all add: shift_streak_data)
  have today: "yday \<noteq> -1" using yday_range by simp
  have persisted:
    "nvs_lookup (flash (save_streak ((shift_streak ^^ ?n) ?s2))) ''streak'' ''data''
       = Some (U8 (streak_data ((shift_streak ^^ ?n) s)))"
    "nvs_lookup (flash (save_streak ((shift_streak ^^ ?n) ?s2))) ''streak'' ''lastDay''
       = Some (I32 yday)"
    using save_streak_persists [of "(shift_streak ^^ ?n) ?s2"] ready today
    by (simp_all add: fl ld sd)
  have nonneg: "0 \<le> days_elapsed yday saved_day"
    using saved_range yday_range by (simp add: days_elapsed_def)
  show ?thesis using eq persisted nonneg by simp
qed

text \<open>The spec's example: last recorded on day 364, synced on day 2 of the next year:
  three shifts, so a press recorded on the last day (bit 6) ends at bit 3.\<close>

theorem sync_ntp_reconciles_missed_days_witness:
  "days_elapsed 2 364 = 3
   \<and> nvs_lookup (flash (sync_ntp (Some 0) 2 (load_streak (initial_device year_end_flash))))
         ''streak'' ''data'' = Some (U8 8)
   \<and> nvs_lookup (flash (sync_ntp (Some 0) 2 (load_streak (initial_device year_end_flash))))
         ''streak'' ''lastDay'' = Some (I32 2)"
proof -
  let ?s = "load_streak (initial_device year_end_flash)"
  have d: "days_elapsed 2 364 = 3" by (simp add: days_elapsed_def)
  have n: "nat (min (days_elapsed 2 364) 7) = 3" by (simp add: d)
  have b: "ntp_synced ?s = False" "flash ?s = year_end_flash" "streak_data ?s = 64"
    by (simp_all only: booted_year_end) (simp_all add: initial_device_def)
  have w: "sntp_wait (Some 0) 0 (ntp_synced ?s)"
    by (simp add: b sntp_wait.simps)
  have r: "nvs_ready (flash ?s)"
    by (simp only: b) (simp add: year_end_flash_def)
  have l: "nvs_lookup (flash ?s) ''streak'' ''lastDay'' = Some (I32 364)"
    by (simp only: b) (simp add: year_end_flash_def nvs_lookup_def)
  have three: "streak_data ((shift_streak ^^ 3) ?s) = 8"
    by (simp add: funpow_3 shift_streak_data b)
  have t: "sync_ntp (Some 0) 2 ?s =
           save_streak ((shift_streak ^^ nat (min (days_elapsed 2 364) 7))
                          (?s\<lparr>ntp_synced := True, last_day := 2\<rparr>))
         \<and> nvs_lookup (flash (sync_ntp (Some 0) 2 ?s)) ''streak'' ''data''
             = Some (U8 (streak_data ((shift_streak ^^ nat (min (days_elapsed 2 364) 7)) ?s)))
         \<and> nvs_lookup (flash (sync_ntp (Some 0) 2 ?s)) ''streak'' ''lastDay'' = Some (I32 2)
         \<and> 0 \<le> days_elapsed 2 364"
    by (rule sync_ntp_reconciles_missed_days [OF w r l]) simp_all
  have "nvs_lookup (flash (sync_ntp (Some 0) 2 ?s)) ''streak'' ''data'' = Some (U8 8)"
    using t [THEN conjunct2, THEN conjunct1] by (simp only: n three)
  moreover have "nvs_lookup (flash (sync_ntp (Some 0) 2 ?s)) ''streak'' ''lastDay'' = Some (I32 2)"
    using t [THEN conjunct2, THEN conjunct2, THEN conjunct1] by simp
  ultimately show ?thesis using d by simp
qed

text \<open>
  Outside the days-of-year the 32-bit arithmetic decides. With the smallest 32-bit value
  stored as \<open>lastDay\<close> and a sync on day 2, the difference wraps to a negative number that
  stays negative after adding 365: the loop does not run, and the mapping is saved as it
  was.
\<close>

lemma sync_ntp_far_past_no_shift:
  "int32_wrap (2 - (- 2147483648)) = - 2147483646
   \<and> nvs_lookup (flash (sync_ntp (Some 0) 2 (load_streak (initial_device far_past_flash))))
         ''streak'' ''data'' = Some (U8 127)"
  by (simp add: int32_wrap_def sync_ntp_def load_streak_def initial_device_def
      far_past_flash_def nvs_open_def nvs_get_u8_def nvs_get_i32_def sntp_wait.simps Let_def
      shift_loop.simps save_streak_def nvs_lookup_def nvs_commit_def nvs_set_u8_def
      nvs_set_i32_def)

subsection \<open>The stored day stays a day-of-year\<close>

text \<open>
  The firmware writes \<open>lastDay\<close> only from \<^verbatim>\<open>last_day\<close>, and sets \<^verbatim>\<open>last_day\<close> only from
  the store or from \<^verbatim>\<open>tm_yday\<close>. So a device that starts on an empty store (or on one
  whose \<open>lastDay\<close> is a day-of-year) never reads anything but a day-of-year back: the
  range the reconciliation theorem asks of the stored day holds in every state the
  firmware reaches by itself.
\<close>

lemma lookup_after_save:
  "nvs_lookup (flash (save_streak s)) ''streak'' ''lastDay''
     = (if nvs_ready (flash s) \<and> last_day s \<noteq> -1 then Some (I32 (last_day s))
        else nvs_lookup (flash s) ''streak'' ''lastDay'')"
  by (auto simp: save_streak_def nvs_open_def nvs_lookup_def nvs_commit_def nvs_set_u8_def
      nvs_set_i32_def Let_def split: option.splits nvs_mode.splits)

lemma days_in_range_updates [simp]:
  "days_in_range (s\<lparr>streak_data := a\<rparr>) = days_in_range s"
  "days_in_range (s\<lparr>today_state := b\<rparr>) = days_in_range s"
  "days_in_range (s\<lparr>button_pressed := c\<rparr>) = days_in_range s"
  "days_in_range (s\<lparr>last_debounce_time := d\<rparr>) = days_in_range s"
  "days_in_range (s\<lparr>last_button_state := e\<rparr>) = days_in_range s"
  "days_in_range (s\<lparr>ntp_synced := f\<rparr>) = days_in_range s"
  "days_in_range (s\<lparr>led_levels := g\<rparr>) = days_in_range s"
  "days_in_range (s\<lparr>webhook_calls := h\<rparr>) = days_in_range s"
  by (simp_all add: days_in_range_def)

lemma days_in_range_save: "days_in_range s \<Longrightarrow> days_in_range (save_streak s)"
  by (auto simp: days_in_range_def lookup_after_save save_streak_fields)

lemma days_in_range_shift: "days_in_range (shift_streak s) = days_in_range s"
  by (simp add: shift_streak_def update_leds_def)

lemma days_in_range_shift_funpow: "days_in_range ((shift_streak ^^ n) s) = days_in_range s"
  by (induction n) (simp_all add: days_in_range_shift)

lemma days_in_range_load: "days_in_range s \<Longrightarrow> days_in_range (load_streak s)"
proof -
  assume a: "days_in_range s"
  show ?thesis
  proof (cases "nvs_open (flash s) ''streak'' NVS_READONLY")
    case None
    then show ?thesis using a by (simp add: load_streak_def Let_def)
  next
    case (Some nvs)
    then have sp: "nvs_spaces (flash s) ''streak'' = Some nvs"
      by (auto simp: nvs_open_def split: if_splits option.splits)
    have "nvs_get_i32 nvs ''lastDay'' (-1) = -1 \<or> day_of_year (nvs_get_i32 nvs ''lastDay'' (-1))"
      using a sp
      by (auto simp: days_in_range_def nvs_lookup_def nvs_get_i32_def
          split: option.splits nvs_val.splits)
    then show ?thesis using a Some by (auto simp: load_streak_def Let_def days_in_range_def)
  qed
qed

lemma days_in_range_clear: "days_in_range s \<Longrightarrow> days_in_range (clear_streak_data s)"
  by (auto simp: days_in_range_def clear_streak_data_def Let_def nvs_open_def nvs_lookup_def
      nvs_commit_def update_leds_def split: option.splits nvs_mode.splits)

lemma days_in_range_button:
  "days_in_range s \<Longrightarrow> days_in_range (handle_button reading t1 t2 s)"
  by (simp add: handle_button_def Let_def send_webhook_def update_leds_def days_in_range_save)

lemma days_in_range_rollover:
  "days_in_range s \<Longrightarrow> current_day = -1 \<or> day_of_year current_day \<Longrightarrow>
     days_in_range (check_midnight_rollover current_day s)"
proof -
  assume a: "days_in_range s" and d: "current_day = -1 \<or> day_of_year current_day"
  have "days_in_range (save_streak (shift_streak s))"
    using a by (simp add: days_in_range_save days_in_range_shift)
  then have "days_in_range ((save_streak (shift_streak s))\<lparr>last_day := current_day\<rparr>)"
    if "current_day \<noteq> -1"
    using d that by (simp add: days_in_range_def)
  then show ?thesis using a by (simp add: check_midnight_rollover_def)
qed

lemma days_in_range_sync:
  "days_in_range s \<Longrightarrow> day_of_year yday \<Longrightarrow> days_in_range (sync_ntp fires_at yday s)"
proof -
  assume a: "days_in_range s" and d: "day_of_year yday"
  have b: "days_in_range (s\<lparr>ntp_synced := x, last_day := yday\<rparr>)" for x
    using a d by (simp add: days_in_range_def)
  show ?thesis
    using a
    by (simp add: sync_ntp_def Let_def b shift_loop_funpow days_in_range_shift_funpow
        days_in_range_save split: option.splits)
qed

lemma days_in_range_step:
  "days_in_range s \<Longrightarrow> step_days_ok x \<Longrightarrow> days_in_range (apply_step x s)"
  by (cases x)
    (simp_all add: days_in_range_button days_in_range_shift days_in_range_load
      days_in_range_save days_in_range_rollover days_in_range_sync days_in_range_clear)

lemma days_in_range_trace:
  "days_in_range s \<Longrightarrow> list_all step_days_ok xs \<Longrightarrow> list_all days_in_range (trace s xs)"
  by (induction xs arbitrary: s) (simp_all add: days_in_range_step)

lemma days_in_range_first_boot: "days_in_range (initial_device empty_flash)"
  by (simp add: days_in_range_def initial_device_def empty_flash_def nvs_lookup_def)

subsection \<open>What a save writes\<close>

text \<open>
  Claim C10. \<^verbatim>\<open>save_streak\<close> with \<^verbatim>\<open>last_day\<close> equal to -1 changes nothing in the
  store but the \<open>data\<close> key of the \<open>streak\<close> namespace: every other key of every
  namespace, the previously persisted \<open>lastDay\<close> among them, reads as before. When the
  store can be opened, \<open>data\<close> holds the mapping afterwards, and \<open>lastDay\<close> is written
  (with \<^verbatim>\<open>last_day\<close>) when \<^verbatim>\<open>last_day\<close> is not -1.
\<close>

theorem save_streak_unknown_day_frame:
  "(last_day s = -1 \<longrightarrow>
      (\<forall>name key. (name, key) \<noteq> (''streak'', ''data'') \<longrightarrow>
         nvs_lookup (flash (save_streak s)) name key = nvs_lookup (flash s) name key))
   \<and> (nvs_ready (flash s) \<longrightarrow>
         nvs_lookup (flash (save_streak s)) ''streak'' ''data'' = Some (U8 (streak_data s)))
   \<and> (nvs_ready (flash s) \<and> last_day s \<noteq> -1 \<longrightarrow>
         nvs_lookup (flash (save_streak s)) ''streak'' ''lastDay'' = Some (I32 (last_day s)))"
  by (auto simp: save_streak_def nvs_open_def nvs_lookup_def nvs_commit_def nvs_set_u8_def
      nvs_set_i32_def Let_def split: option.splits nvs_mode.splits)

theorem save_streak_unknown_day_frame_witness:
  "last_day (initial_device stored_flash) = -1
   \<and> nvs_ready (flash (initial_device stored_flash))
   \<and> nvs_lookup (flash (save_streak (initial_device stored_flash))) ''streak'' ''lastDay''
       = Some (I32 100)
   \<and> nvs_lookup (flash (save_streak (initial_device stored_flash))) ''streak'' ''data''
       = Some (U8 0)"
  using save_streak_unknown_day_frame [of "initial_device stored_flash"]
  by (simp add: initial_device_def stored_flash_def nvs_lookup_def)

subsection \<open>The steady-loop rollover check\<close>

lemma funpow_2: "(f ^^ 2) x = f (f x)"
  by (simp add: numeral_2_eq_2)

lemma pressed_on_day_fields:
  "d \<noteq> -1 \<Longrightarrow>
     streak_data (pressed_on_day d) = 64 \<and> last_day (pressed_on_day d) = d
     \<and> ntp_synced (pressed_on_day d) \<and> today_state (pressed_on_day d)
     \<and> nvs_lookup (flash (pressed_on_day d)) ''streak'' ''lastDay'' = Some (I32 d)"
  by (simp add: pressed_on_day_def handle_button_def sync_ntp_def load_streak_def
      initial_device_def empty_flash_def nvs_open_def sntp_wait.simps Let_def DEBOUNCE_DELAY_def
      update_leds_def save_streak_def send_webhook_def nvs_lookup_def nvs_commit_def
      nvs_set_u8_def nvs_set_i32_def)

text \<open>
  Claim C4 as stated fails. With the last recorded day 10 and the current day 12 the
  claim asks for two shifts, and on the night after day 365 of a leap year (current day
  0) its day count is 0 and it asks for none; \<^verbatim>\<open>check_midnight_rollover\<close> shifts once in
  both cases.
\<close>

theorem rollover_not_by_days_elapsed:
  "streak_data (check_midnight_rollover 12 (pressed_on_day 10))
     \<noteq> streak_data ((shift_streak ^^ nat (min (days_elapsed 12 (last_day (pressed_on_day 10))) 7))
                        (pressed_on_day 10))
   \<and> streak_data (check_midnight_rollover 0 (pressed_on_day 365))
     \<noteq> streak_data ((shift_streak ^^ nat (min (days_elapsed 0 (last_day (pressed_on_day 365))) 7))
                        (pressed_on_day 365))"
proof -
  have a: "nat (min (days_elapsed 12 10) 7) = 2" "nat (min (days_elapsed 0 365) 7) = 0"
    by (simp_all add: days_elapsed_def)
  show ?thesis
    using pressed_on_day_fields [of 10] pressed_on_day_fields [of 365]
    by (simp add: a funpow_2 check_midnight_rollover_def save_streak_fields shift_streak_data)
qed

text \<open>
  Claim C4, amended. On a steady-loop tick after time sync has succeeded, when the last
  recorded day is known (not -1) and the current day-of-year (not -1) differs from it, the
  rollover check applies \<^verbatim>\<open>shift_streak\<close> exactly once, whatever the number of days
  elapsed: the mapping is the once-shifted one and the today flag is off; it persists the
  shifted mapping (when the store can be opened) and sets the last recorded day to the
  current day.
\<close>

theorem rollover_shifts_once:
  assumes "ntp_synced s" and "last_day s \<noteq> -1" and "current_day \<noteq> -1"
    and "current_day \<noteq> last_day s"
  shows "streak_data (check_midnight_rollover current_day s) = streak_data (shift_streak s)
     \<and> \<not> today_state (check_midnight_rollover current_day s)
     \<and> last_day (check_midnight_rollover current_day s) = current_day
     \<and> (nvs_ready (flash s) \<longrightarrow>
           nvs_lookup (flash (check_midnight_rollover current_day s)) ''streak'' ''data''
             = Some (U8 (streak_data (shift_streak s))))"
  using assms save_streak_persists [of "shift_streak s"]
  by (simp add: check_midnight_rollover_def save_streak_fields shift_streak_fields
      shift_streak_def update_leds_def)

theorem rollover_shifts_once_witness:
  "ntp_synced (pressed_on_day 10) \<and> last_day (pressed_on_day 10) = 10
   \<and> streak_data (check_midnight_rollover 12 (pressed_on_day 10)) = 32
   \<and> last_day (check_midnight_rollover 12 (pressed_on_day 10)) = 12"
  using rollover_shifts_once [of "pressed_on_day 10" 12] pressed_on_day_fields [of 10]
  by (simp add: shift_streak_data)

text \<open>The save inside the rollover check runs before the last recorded day is updated:
  the \<open>lastDay\<close> it writes is the day before the rollover.\<close>

lemma rollover_persists_previous_day:
  assumes "ntp_synced s" and "last_day s \<noteq> -1" and "current_day \<noteq> -1"
    and "current_day \<noteq> last_day s" and "nvs_ready (flash s)"
  shows "nvs_lookup (flash (check_midnight_rollover current_day s)) ''streak'' ''lastDay''
           = Some (I32 (last_day s))"
  using assms save_streak_persists [of "shift_streak s"]
  by (simp add: check_midnight_rollover_def shift_streak_fields)

section \<open>Verified properties of the claim code\<close>

lemma length_claim_loop: "length (claim_loop i len h code) = length code"
proof (induction i len h code rule: claim_loop.induct)
  case (1 i len hash code)
  show ?case
  proof (cases "i < 10 \<and> int i < int len - 1")
    case True
    then show ?thesis using "1.IH" by (subst claim_loop.simps) simp
  next
    case False
    then show ?thesis by (subst claim_loop.simps) auto
  qed
qed

lemma take_claim_loop:
  "length code = 12 \<Longrightarrow> i \<le> 10 \<Longrightarrow>
     take 10 (claim_loop i 12 h code) = take i code @ claim_digits (10 - i) h"
proof (induction i "12::nat" h code rule: claim_loop.induct)
  case (1 i hash code)
  show ?case
  proof (cases "i < 10")
    case True
    let ?d = "claim_chars ! unat (hash mod 32)"
    have n: "10 - i = Suc (10 - (i + 1))" using True by simp
    have "take 10 (claim_loop i 12 hash code)
            = take 10 (claim_loop (i + 1) 12 (hash div 32) (code[i := ?d]))"
      using True by (subst claim_loop.simps) simp
    also have "\<dots> = take (i + 1) (code[i := ?d]) @ claim_digits (10 - (i + 1)) (hash div 32)"
      using True "1.prems" by (intro "1.hyps") simp_all
    also have "take (i + 1) (code[i := ?d]) = take i code @ [?d]"
      using True "1.prems" by (simp add: take_Suc_conv_app_nth)
    finally show ?thesis by (simp only: n claim_digits.simps append_assoc append_Cons append_Nil)
  next
    case False
    then have "i = 10" using "1.prems" by simp
    then show ?thesis by (subst claim_loop.simps) simp
  qed
qed

lemma length_claim_digits: "length (claim_digits n h) = n"
  by (induction n arbitrary: h) simp_all

lemma claim_digit_in_alphabet: "claim_chars ! unat ((h::u32) mod 32) \<in> set claim_chars"
proof -
  have "unat (h mod 32) < 32" by (simp add: unat_mod_distrib)
  then show ?thesis by (intro nth_mem) (simp add: claim_chars_def)
qed

lemma set_claim_digits: "set (claim_digits n h) \<subseteq> set claim_chars"
  by (induction n arbitrary: h) (simp_all add: claim_digit_in_alphabet)

lemma NUL_not_in_alphabet: "NUL \<notin> set claim_chars"
  by (simp add: claim_chars_def NUL_def)

lemma c_str_generate_claim_code:
  assumes "length code = 12"
  shows "c_str (generate_claim_code mac 12 code) = claim_digits 10 (mac_hash mac)"
proof -
  let ?r = "generate_claim_code mac 12 code"
  let ?l = "claim_loop 0 12 (mac_hash mac) code"
  have r: "?r = ?l[10 := NUL]" by (simp add: generate_claim_code_def)
  have len: "length ?l = 12" by (simp add: length_claim_loop assms)
  have t: "take 10 ?r = claim_digits 10 (mac_hash mac)"
    using take_claim_loop [OF assms, of 0 "mac_hash mac"] by (simp add: r)
  have a: "?r ! k \<noteq> NUL" if k: "k < 10" for k
  proof -
    have "?r ! k = take 10 ?r ! k" using k by simp
    also have "\<dots> \<in> set (claim_digits 10 (mac_hash mac))"
      unfolding t using k by (intro nth_mem) (simp add: length_claim_digits)
    finally show ?thesis
      using set_claim_digits [of 10 "mac_hash mac"] NUL_not_in_alphabet by auto
  qed
  have b: "\<not> (?r ! 10 \<noteq> NUL)" by (simp add: r len)
  have "takeWhile (\<lambda>c. c \<noteq> NUL) ?r = take 10 ?r"
    by (rule takeWhile_eq_take_P_nth) (use a b in auto)
  then show ?thesis by (simp add: c_str_def t)
qed

text \<open>
  Claim C8. \<^verbatim>\<open>generate_claim_code\<close> is called on the 12-character buffer
  \<^verbatim>\<open>s_claim_code\<close>. Whatever the MAC and whatever the buffer held before, the string left
  in the buffer has exactly 10 characters, each of them from the 32-symbol alphabet, and
  it is the same for any two runs on the same MAC (it does not depend on the buffer's
  earlier contents, the only other input).
\<close>

theorem claim_code_ten_alphabet_chars:
  assumes "length code = 12" and "length code' = 12"
  shows "length (c_str (generate_claim_code mac 12 code)) = 10
     \<and> set (c_str (generate_claim_code mac 12 code)) \<subseteq> set claim_chars
     \<and> c_str (generate_claim_code mac 12 code') = c_str (generate_claim_code mac 12 code)"
  using assms by (simp add: c_str_generate_claim_code length_claim_digits set_claim_digits)

theorem claim_code_ten_alphabet_chars_witness:
  "length (replicate 12 NUL) = 12
   \<and> length (c_str (generate_claim_code [0xAA, 0xBB, 0xCC, 0xDD, 0xEE, 0xFF] 12
                     (replicate 12 NUL))) = 10
   \<and> set (c_str (generate_claim_code [0xAA, 0xBB, 0xCC, 0xDD, 0xEE, 0xFF] 12
                  (replicate 12 NUL))) \<subseteq> set claim_chars"
  using claim_code_ten_alphabet_chars
    [of "replicate 12 NUL" "replicate 12 NUL" "[0xAA, 0xBB, 0xCC, 0xDD, 0xEE, 0xFF]"]
  by simp

text \<open>The spec's end-to-end example: the code of the MAC \<^verbatim>\<open>AA:BB:CC:DD:EE:FF\<close>.\<close>

lemma mac_hash_example: "mac_hash [0xAA, 0xBB, 0xCC, 0xDD, 0xEE, 0xFF] = 0x79cb8dba"
  by (simp add: mac_hash_def fmt_02X_def hex_upper_def upt_rec)

lemma claim_code_example:
  "c_str (generate_claim_code [0xAA, 0xBB, 0xCC, 0xDD, 0xEE, 0xFF] 12 (replicate 12 NUL))
     = ''4PDZ66BAAA''"
proof -
  have ten: "(10::nat) = Suc (Suc (Suc (Suc (Suc (Suc (Suc (Suc (Suc (Suc 0)))))))))"
    by simp
  have d: "claim_digits 10 0x79cb8dba = ''4PDZ66BAAA''"
    by (simp only: ten claim_digits.simps) (simp add: claim_chars_def)
  show ?thesis by (simp add: c_str_generate_claim_code mac_hash_example d)
qed

section \<open>Verified properties of the DNS redirector\<close>

lemma store_bytes_past_end:
  "length buffer \<le> pos \<Longrightarrow> store_bytes buffer pos (b # bs) = Inl (Write_past_end pos)"
  by simp

lemma skip_question_two_labels:
  assumes "b ! 12 = 0xFF" and "b ! 268 = 0xFF"
  shows "skip_question (b::u8 list) 269 12 = 524"
  using assms by (simp add: skip_question.simps)

text \<open>
  Claim C5 asks for a well-formed response to every datagram of at least 12 bytes. The
  name walk of \<^verbatim>\<open>dns_server_task\<close> follows the label lengths of the datagram without
  comparing the position reached with the size of the array. For the 269-byte datagram
  \<open>overlong_name_query\<close> the walk ends at offset 524, and the first byte of the answer is
  stored at index 529 of the 512-byte array: no response is built.
\<close>

theorem dns_overlong_name_writes_past_buffer:
  "length overlong_name_query = 269
   \<and> dns_iteration (replicate 512 0) (Some overlong_name_query) = Inl (Write_past_end 529)"
proof -
  define b where "b = (overlong_name_query @ replicate 243 0)[2 := 0x81, 3 := 0x80, 6 := 0, 7 := 1]"
  have n: "length overlong_name_query = 269" by (simp add: overlong_name_query_def)
  have r: "recvfrom (replicate 512 0) (Some overlong_name_query)
            = (overlong_name_query @ replicate 243 0, 269)"
    by (simp add: recvfrom_def overlong_name_query_def)
  have "b ! 12 = 0xFF" "b ! 268 = 0xFF"
    by (simp_all add: b_def overlong_name_query_def nth_append)
  then have s: "skip_question b 269 12 = 524" by (rule skip_question_two_labels)
  have l: "length b = 512" by (simp add: b_def overlong_name_query_def)
  have w: "store_bytes b 529 dns_answer = Inl (Write_past_end 529)"
    unfolding dns_answer_def append_Cons by (rule store_bytes_past_end) (simp add: l)
  have "dns_iteration (replicate 512 0) (Some overlong_name_query) = Inl (Write_past_end 529)"
    by (simp add: dns_iteration_def r Let_def b_def [symmetric] s w)
  then show ?thesis using n by simp
qed

lemma store_bytes_fits:
  "pos + length bs \<le> length buffer \<Longrightarrow>
     store_bytes buffer pos bs
       = Inr (take pos buffer @ bs @ drop (pos + length bs) buffer, pos + length bs)"
proof (induction bs arbitrary: buffer pos)
  case Nil
  then show ?case by simp
next
  case (Cons b bs)
  have "take (Suc pos) (buffer[pos := b]) = take pos buffer @ [b]"
    using Cons.prems by (simp add: take_Suc_conv_app_nth)
  then show ?case using Cons.prems Cons.IH [of "Suc pos" "buffer[pos := b]"]
    by simp
qed

lemma skip_question_agree:
  "(\<And>k. pos \<le> k \<Longrightarrow> k < len \<Longrightarrow> a ! k = b ! k) \<Longrightarrow>
     skip_question a len pos = skip_question b len pos"
proof (induction a len pos rule: skip_question.induct)
  case (1 a len pos)
  show ?case
  proof (cases "pos < len")
    case True
    then have ab: "a ! pos = b ! pos" using "1.prems" by simp
    show ?thesis
    proof (cases "a ! pos = 0")
      case True
      then show ?thesis using ab
        by (simp add: skip_question.simps [of a len pos] skip_question.simps [of b len pos])
    next
      case False
      have "skip_question a len (pos + unat (a ! pos) + 1)
              = skip_question b len (pos + unat (a ! pos) + 1)"
        using \<open>pos < len\<close> False "1.prems" by (intro "1.IH") simp_all
      then show ?thesis using \<open>pos < len\<close> False ab
        by (simp add: skip_question.simps [of a len pos] skip_question.simps [of b len pos])
    qed
  next
    case False
    then show ?thesis
      by (simp add: skip_question.simps [of a len pos] skip_question.simps [of b len pos])
  qed
qed

lemma skip_question_ge: "pos \<le> skip_question b len pos"
proof (induction b len pos rule: skip_question.induct)
  case (1 b len pos)
  show ?case
  proof (cases "pos < len \<and> b ! pos \<noteq> 0")
    case True
    then show ?thesis using "1.IH" by (subst skip_question.simps) simp
  next
    case False
    then show ?thesis by (subst skip_question.simps) auto
  qed
qed

text \<open>
  For a query whose question lies inside the datagram (the name walk ends at \<open>q\<close>, the
  terminator and the four bytes of type and class follow) and leaves room for the answer,
  the response is the query up to the end of the question, with the flags set to
  \<^verbatim>\<open>81 80\<close> and the answer count to 1, followed by the 16-byte answer record: the
  transaction id (bytes 0 and 1) and the question are the query's.
\<close>

lemma dns_answers_well_formed_query:
  assumes buf: "length buffer = 512"
    and fits: "length dg \<le> 512"
    and q: "q = skip_question dg (length dg) 12"
    and inside: "q + 5 \<le> length dg"
    and room: "q + 21 \<le> 512"
  shows "\<exists>b'. dns_iteration buffer (Some dg)
           = Inr (b', Some ((take (q + 5) dg)[2 := 0x81, 3 := 0x80, 6 := 0x00, 7 := 0x01] @ dns_answer))"
proof -
  have q12: "12 \<le> q" unfolding q by (rule skip_question_ge)
  then have len: "17 \<le> length dg" "length dg \<le> 512" using inside fits by simp_all
  define b0 where "b0 = dg @ drop (length dg) buffer"
  define b where "b = b0[2 := 0x81, 3 := 0x80, 6 := 0x00, 7 := 0x01]"
  have r: "recvfrom buffer (Some dg) = (b0, int (length dg))"
    using len buf by (simp add: recvfrom_def b0_def min_def Let_def)
  have lb: "length b = 512" using len buf by (simp add: b_def b0_def)
  have agree: "b ! k = dg ! k" if "12 \<le> k" "k < length dg" for k
    using that by (simp add: b_def b0_def nth_append)
  have s: "skip_question b (length dg) 12 = q"
    unfolding q by (rule skip_question_agree) (simp add: agree)
  define B where "B = take (q + 5) b @ dns_answer @ drop (q + 5 + length dns_answer) b"
  have la: "length dns_answer = 16" by (simp add: dns_answer_def ap_ip_def)
  have st: "store_bytes b (q + 5) dns_answer = Inr (B, q + 5 + length dns_answer)"
    unfolding B_def by (rule store_bytes_fits) (use room lb la in simp)
  have it: "dns_iteration buffer (Some dg) = Inr (B, Some (take (q + 5 + length dns_answer) B))"
    using len by (simp add: dns_iteration_def r Let_def b_def [symmetric] s st)
  have tk: "take (q + 5) b = (take (q + 5) dg)[2 := 0x81, 3 := 0x80, 6 := 0x00, 7 := 0x01]"
    using inside by (simp add: b_def b0_def take_update_swap)
  have "take (q + 5 + length dns_answer) B = take (q + 5) b @ dns_answer"
    unfolding B_def using lb room by (simp add: la)
  then show ?thesis using it by (simp add: tk)
qed

lemma dns_short_datagram_dropped:
  "length dg < 12 \<Longrightarrow> \<exists>b'. dns_iteration buffer (Some dg) = Inr (b', None)"
  by (simp add: dns_iteration_def recvfrom_def Let_def min_def)

lemma dns_example:
  "\<exists>b'. dns_iteration (replicate 512 0) (Some example_query)
      = Inr (b', Some [0x12, 0x34, 0x81, 0x80, 0x00, 0x01, 0x00, 0x01, 0x00, 0x00, 0x00, 0x00,
                       0x01, 0x61, 0x02, 0x62, 0x63, 0x00, 0x00, 0x01, 0x00, 0x01,
                       0xc0, 0x0c, 0x00, 0x01, 0x00, 0x01, 0x00, 0x00, 0x00, 0x3c, 0x00, 0x04,
                       192, 168, 4, 1])"
proof -
  have q: "17 = skip_question example_query (length example_query) 12"
    by (simp add: example_query_def skip_question.simps)
  show ?thesis
    using dns_answers_well_formed_query [of "replicate 512 0" example_query 17, OF _ _ q]
    by (simp add: example_query_def dns_answer_def ap_ip_def)
qed

section \<open>Verified properties of the scan handler\<close>

text \<open>
  Claim C7 says that the \<open>rssi\<close> field of a returned entry is the bucket 1 to 4. The loop
  body of \<^verbatim>\<open>http_scan_handler\<close> computes the bucket into \<^verbatim>\<open>rssi_level\<close> and then passes
  \<^verbatim>\<open>ap_records[i].rssi\<close> to \<^verbatim>\<open>snprintf\<close>: for an access point measured at -55 dBm
  the bucket is 3 and the response carries -55.
\<close>

theorem scan_reports_raw_rssi:
  \<open>rssi_level (-55) = 3
   \<and> http_scan_handler [\<lparr>ssid = ''Home'', rssi = -55, authmode = 3\<rparr>] True True
       = Inr (ESP_OK, Http_body ''application/json''
                ''{"networks":[{"ssid":"Home","rssi":-55,"auth":3}]}'')\<close>
  by (simp add: http_scan_handler_def scan_entry_def show_int_def show_nat.simps digit_char_def
      c_str_def NUL_def rssi_level_def)

text \<open>The two parts of claim C7 that hold: only the first 20 records of the driver's list
  are looked at, and a record whose SSID is empty adds nothing to the response.\<close>

lemma scan_looks_at_20_records:
  "http_scan_handler found records_alloc response_alloc
     = http_scan_handler (take 20 found) records_alloc response_alloc"
  by (simp add: http_scan_handler_def Let_def min_def)

lemma scan_skips_empty_ssid:
  "c_str (ssid r) = [] \<Longrightarrow> scan_loop (r # rs) st = scan_loop rs st"
  by (cases st) simp

section \<open>Verified properties of the connect handler\<close>

lemma handler_keeps [simp]:
  "portal_flash (wifi_event_handler e p) = portal_flash p"
  "s_claim_code (wifi_event_handler e p) = s_claim_code p"
  "s_provisioning_done (wifi_event_handler e p) = s_provisioning_done p"
  by (cases e; simp add: esp_wifi_call_def xEventGroupSetBits_def)+

lemma deliver_keeps [simp]:
  "portal_flash (deliver_events evs p) = portal_flash p
   \<and> s_claim_code (deliver_events evs p) = s_claim_code p
   \<and> s_provisioning_done (deliver_events evs p) = s_provisioning_done p"
  unfolding deliver_events_def
  by (induction evs arbitrary: p) simp_all

lemma wait_keeps [simp]:
  "portal_flash (xEventGroupWaitBits bits evs p) = portal_flash p
   \<and> s_claim_code (xEventGroupWaitBits bits evs p) = s_claim_code p
   \<and> s_provisioning_done (xEventGroupWaitBits bits evs p) = s_provisioning_done p"
  by (induction evs arbitrary: p) simp_all

lemma connect_attempt_keeps:
  "portal_flash (connect_attempt cfg evd evw p) = portal_flash p"
  "s_claim_code (connect_attempt cfg evd evw p) = s_claim_code p"
  "s_provisioning_done (connect_attempt cfg evd evw p) = s_provisioning_done p"
  by (simp_all add: connect_attempt_def Let_def esp_wifi_call_def xEventGroupClearBits_def)

lemma save_wifi_credentials_persists:
  "nvs_ready (portal_flash p) \<Longrightarrow>
     nvs_lookup (portal_flash (save_wifi_credentials s pw p)) ''wifi'' ''ssid'' = Some (Str s)
     \<and> nvs_lookup (portal_flash (save_wifi_credentials s pw p)) ''wifi'' ''password'' = Some (Str pw)"
  by (auto simp: save_wifi_credentials_def nvs_open_def nvs_lookup_def nvs_commit_def
      nvs_set_str_def split: option.splits)

lemma save_wifi_credentials_keeps:
  "s_claim_code (save_wifi_credentials s pw p) = s_claim_code p"
  by (simp add: save_wifi_credentials_def split: option.splits)

text \<open>
  Claim C6 as stated fails for a request whose body is empty: its parsed SSID is empty,
  but the handler never parses it. \<^verbatim>\<open>httpd_req_recv\<close> returns 0, and the guard
  \<^verbatim>\<open>ret <= 0\<close> answers with the error 400 \<^verbatim>\<open>Invalid request\<close>, not with the JSON
  object.
\<close>

theorem connect_empty_body_counterexample:
  \<open>parse_ssid (recv_content (Recv_data [])) = []
   \<and> http_connect_handler (Recv_data []) True [] [] provisioning_portal
       = Inr ((ESP_FAIL, Http_error 400 ''Invalid request''), provisioning_portal)
   \<and> http_connect_handler (Recv_data []) True [] [] provisioning_portal
       \<noteq> Inr ((ESP_OK, Http_body ''application/json''
                   ''{"success":false,"error":"No SSID provided"}''), provisioning_portal)\<close>
  by (simp add: http_connect_handler_def parse_ssid_def c_str_def)

text \<open>
  Claim C6, amended. A request whose body cannot be received or is empty (the receive
  call returns 0 or less) is answered with the error 400 \<^verbatim>\<open>Invalid request\<close>, and the
  state is untouched. A request with a non-empty body whose parsed SSID is empty is
  answered with \<^verbatim>\<open>{"success":false,"error":"No SSID provided"}\<close>, and the state (store,
  retry counter, signal bits, driver) is untouched. With a non-empty SSID (the driver
  accepting the configuration, the event group existing) the handler sets the retry
  counter to 0, clears the two signal bits, and calls disconnect, set-config and connect in
  this order before it waits for a signal bit (shown for no driver event during the
  100 ms pause; the wait ends at the first bit set or when the events of its 15 seconds
  are used up). If the connected bit is set after the wait, the response is
  \<^verbatim>\<open>{"success":true,"claim_code":...}\<close> with the claim code, provisioning is marked done,
  and the parsed SSID and password are in the \<open>wifi\<close> namespace of the store (when it can
  be opened); otherwise the response is
  \<^verbatim>\<open>{"success":false,"error":"Failed to connect to network"}\<close> and the store is as
  before.
\<close>

theorem connect_handler_outcomes:
  \<open>(recv_ret received \<le> 0 \<longrightarrow>
      http_connect_handler received ok evd evw p
        = Inr ((ESP_FAIL, Http_error 400 ''Invalid request''), p))
   \<and> (0 < recv_ret received \<and> parse_ssid (recv_content received) = [] \<longrightarrow>
      http_connect_handler received ok evd evw p
        = Inr ((ESP_OK, Http_body ''application/json''
                  ''{"success":false,"error":"No SSID provided"}''), p))
   \<and> (0 < recv_ret received \<and> parse_ssid (recv_content received) \<noteq> []
        \<and> ok \<and> s_wifi_event_group p \<noteq> None \<longrightarrow>
      (let ssid_v = parse_ssid (recv_content received);
           password_v = parse_password (recv_content received);
           cfg = connect_config ssid_v password_v;
           p5 = connect_attempt cfg evd evw p
       in connect_attempt cfg [] evw p
            = xEventGroupWaitBits (WIFI_CONNECTED_BIT OR WIFI_FAIL_BIT) evw
                (p\<lparr>s_retry_num := 0,
                   s_wifi_event_group :=
                     map_option (\<lambda>g. g AND NOT (WIFI_CONNECTED_BIT OR WIFI_FAIL_BIT))
                       (s_wifi_event_group p),
                   wifi_calls := wifi_calls p @ [Wifi_disconnect, Wifi_set_config cfg, Wifi_connect]\<rparr>)
          \<and> (connected p5 \<longrightarrow>
                (\<exists>p'. http_connect_handler received ok evd evw p
                        = Inr ((ESP_OK, Http_body ''application/json''
                                  (take 255 (''{"success":true,"claim_code":"''
                                               @ c_str (s_claim_code p) @ ''"}''))), p')
                     \<and> s_provisioning_done p'
                     \<and> (nvs_ready (portal_flash p) \<longrightarrow>
                          nvs_lookup (portal_flash p') ''wifi'' ''ssid'' = Some (Str ssid_v)
                          \<and> nvs_lookup (portal_flash p') ''wifi'' ''password''
                              = Some (Str password_v))))
          \<and> (\<not> connected p5 \<longrightarrow>
                http_connect_handler received ok evd evw p
                  = Inr ((ESP_OK, Http_body ''application/json''
                            ''{"success":false,"error":"Failed to connect to network"}''), p5)
                \<and> portal_flash p5 = portal_flash p
                \<and> s_provisioning_done p5 = s_provisioning_done p)))\<close>
proof -
  have a: "connect_attempt cfg [] evw p
            = xEventGroupWaitBits (WIFI_CONNECTED_BIT OR WIFI_FAIL_BIT) evw
                (p\<lparr>s_retry_num := 0,
                   s_wifi_event_group :=
                     map_option (\<lambda>g. g AND NOT (WIFI_CONNECTED_BIT OR WIFI_FAIL_BIT))
                       (s_wifi_event_group p),
                   wifi_calls := wifi_calls p @ [Wifi_disconnect, Wifi_set_config cfg, Wifi_connect]\<rparr>)"
    for cfg
    by (simp add: connect_attempt_def Let_def esp_wifi_call_def xEventGroupClearBits_def
        deliver_events_def)
  show ?thesis
    using save_wifi_credentials_persists
      [of "connect_attempt (connect_config (parse_ssid (recv_content received))
                              (parse_password (recv_content received))) evd evw p"
          "parse_ssid (recv_content received)" "parse_password (recv_content received)"]
    by (auto simp: http_connect_handler_def Let_def a connected_def connect_attempt_keeps
        save_wifi_credentials_keeps)
qed


lemma home_request_parsed:
  "recv_ret home_request = 38"
  "parse_ssid (recv_content home_request) = ''Home''"
  "parse_password (recv_content home_request) = ''secret123''"
  by (simp_all add: home_request_def parse_ssid_def parse_password_def c_str_def NUL_def)

lemma home_connects:
  "connected (connect_attempt cfg [] [STA_GOT_IP] provisioning_portal)"
  by (simp add: connected_def connect_attempt_def Let_def deliver_events_def esp_wifi_call_def
      xEventGroupClearBits_def xEventGroupSetBits_def group_bits_def provisioning_portal_def
      WIFI_CONNECTED_BIT_def WIFI_FAIL_BIT_def)

lemma home_fails:
  "\<not> connected (connect_attempt cfg [] (replicate 6 STA_DISCONNECTED) provisioning_portal)"
  by (simp add: connected_def connect_attempt_def Let_def deliver_events_def esp_wifi_call_def
      xEventGroupClearBits_def xEventGroupSetBits_def group_bits_def provisioning_portal_def
      WIFI_CONNECTED_BIT_def WIFI_FAIL_BIT_def WIFI_MAXIMUM_RETRY_def numeral_eq_Suc)

theorem connect_handler_outcomes_witness:
  \<open>(\<exists>p'. http_connect_handler home_request True [] [STA_GOT_IP] provisioning_portal
            = Inr ((ESP_OK, Http_body ''application/json''
                      ''{"success":true,"claim_code":"4PDZ66BAAA"}''), p')
         \<and> s_provisioning_done p'
         \<and> nvs_lookup (portal_flash p') ''wifi'' ''ssid'' = Some (Str ''Home'')
         \<and> nvs_lookup (portal_flash p') ''wifi'' ''password'' = Some (Str ''secret123''))
   \<and> (\<exists>p'. http_connect_handler home_request True [] (replicate 6 STA_DISCONNECTED)
              provisioning_portal
            = Inr ((ESP_OK, Http_body ''application/json''
                      ''{"success":false,"error":"Failed to connect to network"}''), p')
         \<and> portal_flash p' = portal_flash provisioning_portal)
   \<and> http_connect_handler (Recv_data ''{}'') True [] [] provisioning_portal
       = Inr ((ESP_OK, Http_body ''application/json''
                 ''{"success":false,"error":"No SSID provided"}''), provisioning_portal)\<close>
proof -
  let ?cfg = "connect_config (parse_ssid (recv_content home_request))
                (parse_password (recv_content home_request))"
  have g: "c_str (s_claim_code provisioning_portal) = ''4PDZ66BAAA''"
    "nvs_ready (portal_flash provisioning_portal)"
    by (simp_all add: provisioning_portal_def empty_flash_def c_str_def NUL_def)
  have h: "0 < recv_ret home_request \<and> parse_ssid (recv_content home_request) \<noteq> []
           \<and> True \<and> s_wifi_event_group provisioning_portal \<noteq> None"
    by (simp add: home_request_parsed provisioning_portal_def)
  have e: "0 < recv_ret (Recv_data ''{}'') \<and> parse_ssid (recv_content (Recv_data ''{}'')) = []"
    by (simp add: parse_ssid_def c_str_def NUL_def)
  note ok = connect_handler_outcomes [of home_request True "[]" "[STA_GOT_IP]" provisioning_portal,
      THEN conjunct2, THEN conjunct2, THEN mp, OF h, unfolded Let_def,
      THEN conjunct2, THEN conjunct1, THEN mp, OF home_connects]
  note ko = connect_handler_outcomes
      [of home_request True "[]" "replicate 6 STA_DISCONNECTED" provisioning_portal,
      THEN conjunct2, THEN conjunct2, THEN mp, OF h, unfolded Let_def,
      THEN conjunct2, THEN conjunct2, THEN mp, OF home_fails]
  note no = connect_handler_outcomes [of "Recv_data ''{}''" True "[]" "[]" provisioning_portal,
      THEN conjunct2, THEN conjunct1, THEN mp, OF e]
  have 1: \<open>\<exists>p'. http_connect_handler home_request True [] [STA_GOT_IP] provisioning_portal
            = Inr ((ESP_OK, Http_body ''application/json''
                      ''{"success":true,"claim_code":"4PDZ66BAAA"}''), p')
         \<and> s_provisioning_done p'
         \<and> nvs_lookup (portal_flash p') ''wifi'' ''ssid'' = Some (Str ''Home'')
         \<and> nvs_lookup (portal_flash p') ''wifi'' ''password'' = Some (Str ''secret123'')\<close>
    using ok by (simp add: g home_request_parsed)
  have 2: \<open>\<exists>p'. http_connect_handler home_request True [] (replicate 6 STA_DISCONNECTED)
              provisioning_portal
            = Inr ((ESP_OK, Http_body ''application/json''
                      ''{"success":false,"error":"Failed to connect to network"}''), p')
         \<and> portal_flash p' = portal_flash provisioning_portal\<close>
    using ko by simp
  show ?thesis using 1 2 no by simp
qed

section \<open>Verified properties of the signature encoding\<close>

text \<open>
  The hexadecimal encoding of the keyed hash: two lower-case digits per byte, and no two
  byte strings share an encoding. The signature of a payload is therefore a function of
  the 32 bytes the HMAC peripheral returns, and differs exactly when they differ.
\<close>

lemma length_bytes_to_hex: "length (bytes_to_hex bs) = 2 * length bs"
  by (induction bs) simp_all

lemma nibble_bound: "unat ((x::u8) AND 0x0F) < 16"
proof -
  have "x AND 0x0F \<le> 0x0F" by (rule word_and_le1)
  then have "unat (x AND 0x0F) \<le> unat (0x0F :: u8)" by (simp only: word_le_nat_alt)
  then show ?thesis by simp
qed

lemma hex_char_in_set: "hex_chars ! unat ((x::u8) AND 0x0F) \<in> set hex_chars"
  by (rule nth_mem) (use nibble_bound [of x] in \<open>simp add: hex_chars_def\<close>)

lemma set_bytes_to_hex: "set (bytes_to_hex bs) \<subseteq> set hex_chars"
  by (induction bs) (simp_all add: hex_char_in_set)

lemma distinct_hex_chars: "distinct hex_chars"
  by (simp add: hex_chars_def)

lemma hex_char_inj:
  assumes "hex_chars ! unat ((x::u8) AND 0x0F) = hex_chars ! unat ((y::u8) AND 0x0F)"
  shows "x AND 0x0F = y AND 0x0F"
proof -
  have "unat (x AND 0x0F) < length hex_chars" "unat (y AND 0x0F) < length hex_chars"
    using nibble_bound [of x] nibble_bound [of y] by (simp_all add: hex_chars_def)
  then have "unat (x AND 0x0F) = unat (y AND 0x0F)"
    using assms distinct_hex_chars by (simp add: nth_eq_iff_index_eq)
  then show ?thesis by (simp only: word_unat_eq_iff)
qed

lemma bit_15_u8: "bit (15::u8) i = (i < 4)"
proof -
  have "(15::u8) = mask 4" by (simp add: mask_eq_exp_minus_1)
  then have "bit (15::u8) i = bit (mask 4 :: u8) i" by (rule arg_cong)
  also have "\<dots> = (i < 4)" by (simp only: bit_mask_iff possible_bit_word) auto
  finally show ?thesis .
qed

lemma bit_15_int: "bit (15::int) i = (i < 4)"
proof -
  have "(15::int) = mask 4" by (simp add: mask_eq_exp_minus_1)
  then have "bit (15::int) i = bit (mask 4 :: int) i" by (rule arg_cong)
  also have "\<dots> = (i < 4)" by (simp only: bit_mask_iff) (simp add: possible_bit_def)
  finally show ?thesis .
qed

lemma byte_from_nibbles:
  assumes hi: "drop_bit 4 (x::u8) AND 0x0F = drop_bit 4 y AND 0x0F"
    and lo: "x AND 0x0F = y AND 0x0F"
  shows "x = y"
proof (rule bit_eqI)
  fix i
  show "bit x i = bit y i"
  proof (cases "i < 4")
    case True
    have "bit (x AND 0x0F) i = bit (y AND 0x0F) i" using lo by simp
    then show ?thesis using True by (simp add: bit_and_iff bit_15_u8 bit_15_int)
  next
    case False
    show ?thesis
    proof (cases "i < 8")
      case True
      have "bit (drop_bit 4 x AND 0x0F) (i - 4) = bit (drop_bit 4 y AND 0x0F) (i - 4)"
        using hi by simp
      then show ?thesis using True False by (auto simp add: bit_and_iff bit_15_u8 bit_15_int bit_drop_bit_eq)
    next
      case False
      then show ?thesis by (auto dest: bit_imp_le_length)
    qed
  qed
qed

lemma bytes_to_hex_inj: "bytes_to_hex a = bytes_to_hex b \<Longrightarrow> a = b"
proof (induction a arbitrary: b)
  case Nil
  then show ?case by (cases b) simp_all
next
  case (Cons x xs)
  then obtain y ys where b: "b = y # ys" by (cases b) simp_all
  have hi: "hex_chars ! unat (drop_bit 4 x AND 0x0F) = hex_chars ! unat (drop_bit 4 y AND 0x0F)"
    and lo: "hex_chars ! unat (x AND 0x0F) = hex_chars ! unat (y AND 0x0F)"
    and tl: "bytes_to_hex xs = bytes_to_hex ys"
    using Cons.prems unfolding b bytes_to_hex.simps by blast+
  have "x = y"
    using hex_char_inj [OF hi] hex_char_inj [OF lo] by (rule byte_from_nibbles)
  then show ?case using Cons.IH [OF tl] b by simp
qed

lemma signature_is_64_lowercase_hex:
  assumes "calculate_hmac_signature avail hmac msg = Some sig"
    and "\<And>d. hmac msg = Some d \<Longrightarrow> length d = 32"
  shows "length sig = 64 \<and> set sig \<subseteq> set hex_chars"
proof -
  obtain d where d: "hmac msg = Some d" and sig: "sig = bytes_to_hex d"
    using assms(1) by (auto simp: calculate_hmac_signature_def split: if_splits option.splits)
  have "length d = 32" using assms(2) d by simp
  then show ?thesis unfolding sig by (simp add: length_bytes_to_hex set_bytes_to_hex)
qed

lemma signature_changes_with_hmac:
  assumes "calculate_hmac_signature avail hmac m1 = Some s1"
    and "calculate_hmac_signature avail hmac m2 = Some s2"
  shows "(s1 = s2) = (hmac m1 = hmac m2)"
proof -
  obtain d1 where d1: "hmac m1 = Some d1" "s1 = bytes_to_hex d1"
    using assms(1) by (auto simp: calculate_hmac_signature_def split: if_splits option.splits)
  obtain d2 where d2: "hmac m2 = Some d2" "s2 = bytes_to_hex d2"
    using assms(2) by (auto simp: calculate_hmac_signature_def split: if_splits option.splits)
  show ?thesis unfolding d1 d2 using bytes_to_hex_inj [of d1 d2] by auto
qed

end
